theory Spec2Isabelle
  imports Complex_Main
begin

section \<open>Data model\<close>

text \<open>
  The postprocessing code of Dispa-SET (\<open>dispaset/postprocessing/plot.py\<close>) works on
  pandas objects. A \<open>Series\<close> is a sequence of (timestamp, value) pairs in index order;
  a \<open>DataFrame\<close> is one row index shared by an ordered list of labelled columns.
  Values are idealised as real numbers: rounding of floating-point arithmetic is not
  modelled. The value ``not a number'' only appears where the code itself creates it
  (reindexing, an empty maximum or mean, a table created without data) and is then
  written \<open>None\<close>. Timestamps are natural numbers (ordinal time steps).

  The model is meant for frames whose column labels are pairwise different, as the
  technology labels of a dispatch table are; what pandas does with repeated labels is
  not modelled.
\<close>

type_synonym time = nat

type_synonym series = "(time \<times> real) list"

type_synonym nseries = "(time \<times> real option) list"

type_synonym cols = "(string \<times> real list) list"

record frame =
  findex :: "time list"
  fcols :: cols

datatype error = IndexError | KeyError | ValueError | SystemExit nat

definition labels :: "frame \<Rightarrow> string list" where
  "labels f = map fst (fcols f)"

text \<open>Column lengths of a pandas frame always agree with the length of its index.\<close>

definition wf_frame :: "frame \<Rightarrow> bool" where
  "wf_frame f \<longleftrightarrow>
     distinct (labels f) \<and> list_all (\<lambda>c. length (snd c) = length (findex f)) (fcols f)"

text \<open>\<open>df[k] = v\<close>: an existing column is overwritten in place, a new one is appended.\<close>

fun set_col :: "(string \<times> 'a) list \<Rightarrow> string \<Rightarrow> 'a \<Rightarrow> (string \<times> 'a) list" where
  "set_col [] k v = [(k, v)]"
| "set_col ((l, c) # r) k v = (if l = k then (l, v) # r else (l, c) # set_col r k v)"

text \<open>\<open>df[[k1, k2, ...]]\<close>: the named columns in the order of the request.\<close>

definition select_cols :: "cols \<Rightarrow> string list \<Rightarrow> cols" where
  "select_cols cs ks = concat (map (\<lambda>k. filter (\<lambda>c. fst c = k) cs) ks)"

text \<open>\<open>df.sum(axis=1)\<close> and \<open>df.cumsum(axis=1)\<close> over \<open>n\<close> rows.\<close>

definition zeros :: "nat \<Rightarrow> real list" where
  "zeros n = replicate n 0"

definition vadd :: "real list \<Rightarrow> real list \<Rightarrow> real list" where
  "vadd a b = map2 (+) a b"

definition sum_axis1 :: "nat \<Rightarrow> cols \<Rightarrow> real list" where
  "sum_axis1 n cs = foldl vadd (zeros n) (map snd cs)"

fun cumsum_from :: "real list \<Rightarrow> cols \<Rightarrow> cols" where
  "cumsum_from acc [] = []"
| "cumsum_from acc ((l, c) # r) = (l, vadd acc c) # cumsum_from (vadd acc c) r"

definition cumsum_axis1 :: "nat \<Rightarrow> cols \<Rightarrow> cols" where
  "cumsum_axis1 n cs = cumsum_from (zeros n) cs"

text \<open>\<open>s.mean()\<close>, \<open>s.max()\<close>, \<open>s.min()\<close>: not a number on an empty series.\<close>

definition mean :: "real list \<Rightarrow> real option" where
  "mean xs = (if xs = [] then None else Some (sum_list xs / real (length xs)))"

definition series_max :: "real list \<Rightarrow> real option" where
  "series_max xs = (case xs of [] \<Rightarrow> None | x # r \<Rightarrow> Some (fold max r x))"

definition series_min :: "real list \<Rightarrow> real option" where
  "series_min xs = (case xs of [] \<Rightarrow> None | x # r \<Rightarrow> Some (fold min r x))"

section \<open>\<open>plot_dispatch\<close>: netting, zero line and stacked layout\<close>

text \<open>
  Lines 57--59. Both right-hand sides are evaluated on the frame as passed in, then
  column \<open>FlowOut\<close> and then column \<open>FlowIn\<close> of the caller's frame are overwritten:
  \<^verbatim>\<open>
  if 'FlowIn' in plotdata and 'FlowOut' in plotdata:
      plotdata['FlowOut'], plotdata['FlowIn'] = (np.minimum(0, plotdata['FlowIn'] + plotdata['FlowOut']),
                                                 np.maximum(0, plotdata['FlowOut'] + plotdata['FlowIn']))
  \<close>
\<close>

definition plot_dispatch_netting :: "frame \<Rightarrow> frame" where
  "plot_dispatch_netting plotdata =
     (case (map_of (fcols plotdata) ''FlowIn'', map_of (fcols plotdata) ''FlowOut'') of
        (Some flow_in, Some flow_out) \<Rightarrow>
          let new_out = map (min 0) (vadd flow_in flow_out);
              new_in = map (max 0) (vadd flow_out flow_in)
          in plotdata\<lparr>fcols := set_col (set_col (fcols plotdata) ''FlowOut'' new_out)
                                         ''FlowIn'' new_in\<rparr>
      | _ \<Rightarrow> plotdata)"

text \<open>
  Lines 62--67, the zero line. \<open>plotdata.iloc[:, 0]\<close> raises \<open>IndexError\<close> on a frame
  without columns; a comparison with a mean that is not a number is false.
  \<^verbatim>\<open>
  cols = plotdata.columns.tolist()
  idx_zero = 0
  tmp = plotdata.iloc[:, idx_zero].mean()
  while tmp <= 0 and idx_zero < len(cols) - 1:
      idx_zero += 1
      tmp = plotdata.iloc[:, idx_zero].mean()
  \<close>
\<close>

definition mean_le_zero :: "real list \<Rightarrow> bool" where
  "mean_le_zero c = (case mean c of None \<Rightarrow> False | Some m \<Rightarrow> m \<le> 0)"

function zero_line_loop :: "cols \<Rightarrow> nat \<Rightarrow> nat" where
  "zero_line_loop cs idx_zero =
     (if mean_le_zero (snd (cs ! idx_zero)) \<and> int idx_zero < int (length cs) - 1
      then zero_line_loop cs (idx_zero + 1) else idx_zero)"
  by pat_completeness auto
termination
  by (relation "measure (\<lambda>(cs, i). length cs - i)") auto

declare zero_line_loop.simps [simp del]

definition plot_dispatch_idx_zero :: "frame \<Rightarrow> error + nat" where
  "plot_dispatch_idx_zero plotdata =
     (if fcols plotdata = [] then Inl IndexError else Inr (zero_line_loop (fcols plotdata) 0))"

text \<open>
  Lines 69--75, the negative block.
  \<^verbatim>\<open>
  tmp = plotdata[cols[:idx_zero]].sum(axis=1)
  sumplot_neg = pd.DataFrame()
  sumplot_neg['sum'] = tmp
  tmp2 = plotdata[cols[:idx_zero]]
  for col in tmp2:
      sumplot_neg[col] = - tmp2[col]
  sumplot_neg = sumplot_neg.cumsum(axis=1)
  \<close>
\<close>

definition plot_dispatch_sumplot_neg :: "frame \<Rightarrow> nat \<Rightarrow> frame" where
  "plot_dispatch_sumplot_neg plotdata idx_zero =
     (let n = length (findex plotdata);
          tmp2 = select_cols (fcols plotdata) (take idx_zero (labels plotdata));
          tmp = sum_axis1 n tmp2;
          sumplot_neg = foldl (\<lambda>df c. set_col df (fst c) (map uminus (snd c)))
                              (set_col [] ''sum'' tmp) tmp2
      in \<lparr>findex = findex plotdata, fcols = cumsum_axis1 n sumplot_neg\<rparr>)"

text \<open>
  Lines 77--79, the positive block.
  \<^verbatim>\<open>
  sumplot_pos = plotdata[cols[idx_zero:]].cumsum(axis=1)
  sumplot_pos['zero'] = 0
  sumplot_pos = sumplot_pos[['zero'] + sumplot_pos.columns[:-1].tolist()]
  \<close>
\<close>

definition plot_dispatch_sumplot_pos :: "frame \<Rightarrow> nat \<Rightarrow> frame" where
  "plot_dispatch_sumplot_pos plotdata idx_zero =
     (let n = length (findex plotdata);
          sumplot_pos = cumsum_axis1 n
                          (select_cols (fcols plotdata) (drop idx_zero (labels plotdata)));
          sumplot_pos = set_col sumplot_pos ''zero'' (zeros n)
      in \<lparr>findex = findex plotdata,
          fcols = select_cols sumplot_pos (''zero'' # butlast (map fst sumplot_pos))\<rparr>)"


text \<open>
  Lines 124--130 and 137--144 walk over the neighbouring columns \<open>col1\<close>, \<open>col2\<close> of
  \<open>sumplot_neg\<close> and of \<open>sumplot_pos\<close> and fill the area between them, under the label
  of \<open>col2\<close>. A band is the label with its two boundaries.
  \<^verbatim>\<open>
  for j in range(idx_zero):
      col1 = sumplot_neg.columns[j]
      col2 = sumplot_neg.columns[j + 1]
      ...
      axes[0].fill_between(pdrng, sumplot_neg.loc[pdrng, col1], sumplot_neg.loc[pdrng, col2], ...)
  for j in range(len(sumplot_pos.columns) - 1):
      col1 = sumplot_pos.columns[j]
      col2 = sumplot_pos.columns[j + 1]
      ...
      axes[0].fill_between(pdrng, sumplot_pos.loc[pdrng, col1], sumplot_pos.loc[pdrng, col2], ...)
  \<close>
\<close>

definition bands :: "cols \<Rightarrow> (string \<times> real list \<times> real list) list" where
  "bands cs = map (\<lambda>x. (fst (snd x), snd (fst x), snd (snd x))) (zip cs (tl cs))"

section \<open>\<open>plot_dispatch\<close>: index checks and the reduced demand\<close>

definition bind_err :: "error + 'a \<Rightarrow> ('a \<Rightarrow> error + 'b) \<Rightarrow> error + 'b" where
  "bind_err m f = (case m of Inl e \<Rightarrow> Inl e | Inr x \<Rightarrow> f x)"

definition index :: "(time \<times> 'a) list \<Rightarrow> time list" where
  "index s = map fst s"

definition constant_series :: "real \<Rightarrow> time list \<Rightarrow> series" where
  "constant_series v idx = map (\<lambda>t. (t, v)) idx"

text \<open>
  Arithmetic of two series that carry the same index is element by element;
  \<open>series_add\<close> is only used behind a test that the two indexes are equal.
\<close>

definition series_add :: "series \<Rightarrow> series \<Rightarrow> series" where
  "series_add a b = map2 (\<lambda>x y. (fst x, snd x + snd y)) a b"

definition series_neg :: "series \<Rightarrow> series" where
  "series_neg a = map (\<lambda>x. (fst x, - snd x)) a"

text \<open>
  Lines 150--153. \<open>sys.exit(1)\<close> raises \<open>SystemExit(1)\<close>; \<open>Index.equals\<close> compares the
  two indexes element by element, in order.
  \<^verbatim>\<open>
  if isinstance(curtailment, pd.Series):
      if not curtailment.index.equals(demand.index):
          logging.error('The curtailment time series must have the same index as the demand')
          sys.exit(1)
  \<close>
  An argument that is not a \<open>Series\<close> (the default \<open>None\<close>) is \<open>None\<close> in the model.
\<close>

definition plot_dispatch_curtailment :: "series \<Rightarrow> series option \<Rightarrow> error + unit" where
  "plot_dispatch_curtailment demand curtailment =
     (case curtailment of
        None \<Rightarrow> Inr ()
      | Some c \<Rightarrow> if index c \<noteq> index demand then Inl (SystemExit 1) else Inr ())"

text \<open>
  Lines 162--176.
  \<^verbatim>\<open>
  load_change = pd.Series(0, index=demand.index)
  load_changed = False
  if isinstance(shedload, pd.Series):
      if not shedload.index.equals(demand.index):
          logging.critical('The shedload time series must have the same index as the demand')
          sys.exit(1)
      load_change += -shedload
      load_changed = True
  if isinstance(shiftedload, pd.Series):
      if not shiftedload.index.equals(demand.index):
          logging.critical('The shiftedload time series must have the same index as the demand')
          sys.exit(1)
      load_change += -shiftedload
      load_changed = True
  reduced_demand = demand + load_change
  \<close>
\<close>

definition deduct :: "series \<Rightarrow> series option \<Rightarrow> series \<times> bool \<Rightarrow> error + series \<times> bool" where
  "deduct demand load st =
     (case load of
        None \<Rightarrow> Inr st
      | Some s \<Rightarrow> if index s \<noteq> index demand then Inl (SystemExit 1)
                  else Inr (series_add (fst st) (series_neg s), True))"

definition plot_dispatch_load_change ::
  "series \<Rightarrow> series option \<Rightarrow> series option \<Rightarrow> error + series \<times> bool" where
  "plot_dispatch_load_change demand shedload shiftedload =
     bind_err (deduct demand shedload (constant_series 0 (index demand), False)) (\<lambda>st.
     bind_err (deduct demand shiftedload st) (\<lambda>st.
     Inr (series_add demand (fst st), snd st)))"

text \<open>
  The data path of \<open>plot_dispatch\<close>, for a call with \<open>rng=None\<close> or with a valid range.
  The drawing statements (lines 81--147, 154--160 and 177--198: the calls into matplotlib
  and the evaluation of their arguments), the plotting window \<open>pdrng\<close> and the reservoir
  \<open>level\<close> that only they read, and the colour tables of \<open>commons\<close> are not part of the
  model, so an exception raised while drawing is not an outcome of the model: what is
  proved about the outcome of a call is proved about this data path. The function has no
  return value; the model returns the values of its local variables. The frame
  \<open>plotdata\<close> is the caller's object and is overwritten by the netting step, so its
  final state is returned as well, also when the call fails later.
\<close>

record dispatch =
  d_idx_zero :: nat
  d_sumplot_neg :: frame
  d_sumplot_pos :: frame
  d_reduced_demand :: series
  d_load_changed :: bool

definition plot_dispatch ::
  "series \<Rightarrow> frame \<Rightarrow> series option \<Rightarrow> series option \<Rightarrow> series option
     \<Rightarrow> frame \<times> (error + dispatch)" where
  "plot_dispatch demand plotdata curtailment shedload shiftedload =
     (let plotdata = plot_dispatch_netting plotdata
      in (plotdata,
          bind_err (plot_dispatch_idx_zero plotdata) (\<lambda>idx_zero.
          bind_err (plot_dispatch_curtailment demand curtailment) (\<lambda>_.
          bind_err (plot_dispatch_load_change demand shedload shiftedload) (\<lambda>st.
          Inr \<lparr>d_idx_zero = idx_zero,
               d_sumplot_neg = plot_dispatch_sumplot_neg plotdata idx_zero,
               d_sumplot_pos = plot_dispatch_sumplot_pos plotdata idx_zero,
               d_reduced_demand = fst st,
               d_load_changed = snd st\<rparr>)))))"

section \<open>\<open>plot_zone\<close>: the instantaneous energy balance\<close>

text \<open>
  \<open>pd.Series(s, index=idx)\<close> reindexes \<open>s\<close>: nothing happens when the indexes are equal;
  otherwise every timestamp of \<open>idx\<close> takes the value \<open>s\<close> has there, or not a number.
  A series with a repeated timestamp cannot be reindexed (\<open>ValueError\<close>).
\<close>

definition reindex :: "series \<Rightarrow> time list \<Rightarrow> error + nseries" where
  "reindex s idx =
     (if index s = idx then Inr (map (\<lambda>x. (fst x, Some (snd x))) s)
      else if distinct (index s) then Inr (map (\<lambda>t. (t, map_of s t)) idx)
      else Inl ValueError)"

definition fillna :: "real \<Rightarrow> nseries \<Rightarrow> series" where
  "fillna d s = map (\<lambda>x. (fst x, case snd x of None \<Rightarrow> d | Some v \<Rightarrow> v)) s"

definition series_div :: "series \<Rightarrow> real \<Rightarrow> series" where
  "series_div s k = map (\<lambda>x. (fst x, snd x / k)) s"

definition some_series :: "series \<Rightarrow> nseries" where
  "some_series s = map (\<lambda>x. (fst x, Some (snd x))) s"

text \<open>
  Arithmetic of two series aligns them first: on equal indexes it is element by
  element, otherwise the result lives on the sorted union of the two indexes and is not
  a number wherever one side has no value (indexes without repeated timestamps).
\<close>

definition lift2 :: "(real \<Rightarrow> real \<Rightarrow> real) \<Rightarrow> real option \<Rightarrow> real option \<Rightarrow> real option" where
  "lift2 f x y = (case (x, y) of (Some u, Some v) \<Rightarrow> Some (f u v) | _ \<Rightarrow> None)"

definition value_at :: "nseries \<Rightarrow> time \<Rightarrow> real option" where
  "value_at s t = (case map_of s t of None \<Rightarrow> None | Some v \<Rightarrow> v)"

definition align_op :: "(real \<Rightarrow> real \<Rightarrow> real) \<Rightarrow> nseries \<Rightarrow> nseries \<Rightarrow> nseries" where
  "align_op f a b =
     (if index a = index b then map2 (\<lambda>x y. (fst x, lift2 f (snd x) (snd y))) a b
      else map (\<lambda>t. (t, lift2 f (value_at a t) (value_at b t))) (sort (remdups (index a @ index b))))"

text \<open>\<open>s.abs()\<close>, and \<open>s.max()\<close> which skips the values that are not a number.\<close>

definition series_abs :: "nseries \<Rightarrow> nseries" where
  "series_abs s = map (\<lambda>x. (fst x, map_option abs (snd x))) s"

definition dropna :: "real option list \<Rightarrow> real list" where
  "dropna vs = concat (map (\<lambda>v. case v of None \<Rightarrow> [] | Some x \<Rightarrow> [x]) vs)"

definition nmax :: "real option list \<Rightarrow> real option" where
  "nmax vs = series_max (dropna vs)"

definition nmin :: "real option list \<Rightarrow> real option" where
  "nmin vs = series_min (dropna vs)"

text \<open>
  \<open>results[key][z]\<close> behind the test \<open>key in results and z in results[key]\<close>: the
  column of zone \<open>z\<close> of a result table, as a series over the table's index.
\<close>

definition zone_column :: "(string \<rightharpoonup> frame) \<Rightarrow> string \<Rightarrow> string \<Rightarrow> series option" where
  "zone_column results key z =
     (case results key of
        None \<Rightarrow> None
      | Some tab \<Rightarrow> (case map_of (fcols tab) z of
                       None \<Rightarrow> None
                     | Some c \<Rightarrow> Some (zip (findex tab) c)))"

text \<open>
  Lines 409--418.
  \<^verbatim>\<open>
  if 'OutputShedLoad' in results and z in results['OutputShedLoad']:
      shed_load = results['OutputShedLoad'][z] / 1000  # GW
      shed_load = pd.Series(shed_load, index=demand.index).fillna(0)
  else:
      shed_load = pd.Series(0, index=demand.index) / 1000  # GW
  if 'OutputDemandModulation' in results and z in results['OutputDemandModulation']:
      shifted_load = -results['OutputDemandModulation'][z] / 1000  # GW
      shifted_load = pd.Series(shifted_load, index=demand.index).fillna(0)
  else:
      shifted_load = pd.Series(0, index=demand.index) / 1000  # GW
  \<close>
\<close>

definition plot_zone_shed_load :: "(string \<rightharpoonup> frame) \<Rightarrow> string \<Rightarrow> series \<Rightarrow> error + series" where
  "plot_zone_shed_load results z demand =
     (case zone_column results ''OutputShedLoad'' z of
        Some col \<Rightarrow>
          bind_err (reindex (series_div col 1000) (index demand))
                   (\<lambda>shed_load. Inr (fillna 0 shed_load))
      | None \<Rightarrow> Inr (series_div (constant_series 0 (index demand)) 1000))"

definition plot_zone_shifted_load :: "(string \<rightharpoonup> frame) \<Rightarrow> string \<Rightarrow> series \<Rightarrow> error + series" where
  "plot_zone_shifted_load results z demand =
     (case zone_column results ''OutputDemandModulation'' z of
        Some col \<Rightarrow>
          bind_err (reindex (series_div (series_neg col) 1000) (index demand))
                   (\<lambda>shifted_load. Inr (fillna 0 shifted_load))
      | None \<Rightarrow> Inr (series_div (constant_series 0 (index demand)) 1000))"

text \<open>
  Lines 407 and 419.
  \<^verbatim>\<open>
  sum_generation = plotdata.sum(axis=1)
  diff = (sum_generation - demand + shifted_load + shed_load).abs()
  \<close>
\<close>

definition frame_sum_axis1 :: "frame \<Rightarrow> series" where
  "frame_sum_axis1 f = zip (findex f) (sum_axis1 (length (findex f)) (fcols f))"

definition plot_zone_diff :: "frame \<Rightarrow> series \<Rightarrow> series \<Rightarrow> series \<Rightarrow> nseries" where
  "plot_zone_diff plotdata demand shifted_load shed_load =
     series_abs
       (align_op (+)
          (align_op (+)
             (align_op (-) (some_series (frame_sum_axis1 plotdata)) (some_series demand))
             (some_series shifted_load))
          (some_series shed_load))"

text \<open>
  Lines 421--423. A comparison with a maximum that is not a number is false. The
  quotient of the message is computed on numpy floats, where a division by zero gives
  infinity and does not raise.
  \<^verbatim>\<open>
  if diff.max() > 0.01 * demand.max():
      logging.critical('There is up to ' + str(
          diff.max() / demand.max() * 100) + '% difference in the instantaneous energy balance of zone ' + z)
  \<close>
\<close>

datatype deviation = Percent real | Infinite

datatype log_record = Critical_balance deviation string

definition plot_zone_balance_log :: "nseries \<Rightarrow> series \<Rightarrow> string \<Rightarrow> log_record list" where
  "plot_zone_balance_log diff demand z =
     (case (nmax (map snd diff), series_max (map snd demand)) of
        (Some m, Some d) \<Rightarrow>
          if m > 0.01 * d
          then [Critical_balance (if d = 0 then Infinite else Percent (m / d * 100)) z]
          else []
      | _ \<Rightarrow> [])"

text \<open>
  Lines 425--431.
  \<^verbatim>\<open>
  if 'OutputCurtailedPower' in results and z in results['OutputCurtailedPower']:
      curtailment = results['OutputCurtailedPower'][z] / 1000  # GW
  else:
      curtailment = None
  plot_dispatch(demand, plotdata, level, curtailment=curtailment, shedload=shed_load, shiftedload=shifted_load,
                rng=rng, alpha=0.5)
  \<close>
\<close>

definition plot_zone_curtailment :: "(string \<rightharpoonup> frame) \<Rightarrow> string \<Rightarrow> series option" where
  "plot_zone_curtailment results z =
     map_option (\<lambda>col. series_div col 1000) (zone_column results ''OutputCurtailedPower'' z)"

definition frame_div :: "frame \<Rightarrow> real \<Rightarrow> frame" where
  "frame_div f k = f\<lparr>fcols := map (\<lambda>c. (fst c, map (\<lambda>v. v / k) (snd c))) (fcols f)\<rparr>"

text \<open>
  Lines 407--442 of \<open>plot_zone\<close> for a zone \<open>z\<close> of the results. The parameter
  \<open>plot_data\<close> is what \<open>get_plot_data(inputs, results, z)\<close> returned in line 368 and
  \<open>demand\<close> is the series assembled in lines 393--405; both are built by functions of
  \<open>postprocessing.py\<close>. The rug plot of lines 433--440 is drawing and is left out. The
  messages logged are the state that is passed on; the function returns \<open>True\<close> unless
  one of its steps raises.
\<close>

definition plot_zone ::
  "frame \<Rightarrow> series \<Rightarrow> (string \<rightharpoonup> frame) \<Rightarrow> string \<Rightarrow> log_record list \<times> (error + bool)" where
  "plot_zone plot_data demand results z =
     (let plotdata = frame_div plot_data 1000
      in case plot_zone_shed_load results z demand of
           Inl e \<Rightarrow> ([], Inl e)
         | Inr shed_load \<Rightarrow>
        (case plot_zone_shifted_load results z demand of
           Inl e \<Rightarrow> ([], Inl e)
         | Inr shifted_load \<Rightarrow>
             let diff = plot_zone_diff plotdata demand shifted_load shed_load;
                 log = plot_zone_balance_log diff demand z;
                 curtailment = plot_zone_curtailment results z
             in (log,
                 bind_err (snd (plot_dispatch demand plotdata curtailment
                                  (Some shed_load) (Some shifted_load)))
                          (\<lambda>_. Inr True))))"

section \<open>\<open>plot_zone\<close>: storage levels per technology\<close>

type_synonym ncols = "(string \<times> real option list) list"

fun fold_err :: "('s \<Rightarrow> 'a \<Rightarrow> error + 's) \<Rightarrow> 'a list \<Rightarrow> 's \<Rightarrow> error + 's" where
  "fold_err f [] s = Inr s"
| "fold_err f (x # xs) s = bind_err (f s x) (fold_err f xs)"

text \<open>
  Lines 378--389. \<open>level\<close> is the frame returned by \<open>filter_by_storage\<close> in line 377 and
  \<open>filter_by_tech t\<close> stands for \<open>filter_by_tech(level, inputs, t)\<close>; \<open>idx\<close> is the index
  of \<open>results['OutputStorageLevel']\<close> and \<open>sets_t\<close> is \<open>inputs['sets']['t']\<close>.
  \<^verbatim>\<open>
  levels = pd.DataFrame(index=results['OutputStorageLevel'].index,columns=inputs['sets']['t'])
  for t in ['HDAM','HPHS','BEVS','BATS','SCSP', 'P2GS']:
      temp = filter_by_tech(level,inputs,t)
      levels[t] = temp.sum(axis=1)
  levels.dropna(axis=1, inplace=True)
  for col in levels.columns:
      if levels[col].max() == 0 and levels[col].min() == 0:
          del levels[col]
  if aggregation is True:
      level = level.sum(axis=1)
  else:
      level = levels
  \<close>
  A frame created from an index and column labels alone holds not a number everywhere.
  Assigning a series to a column aligns the series with the index of the frame.
  \<open>dropna(axis=1)\<close> removes every column that holds a value that is not a number.
\<close>

definition levels_assign :: "time list \<Rightarrow> (string \<Rightarrow> frame) \<Rightarrow> ncols \<Rightarrow> string \<Rightarrow> error + ncols" where
  "levels_assign idx filter_by_tech levels t =
     (let temp = filter_by_tech t
      in bind_err (reindex (frame_sum_axis1 temp) idx)
                  (\<lambda>s. Inr (set_col levels t (map snd s))))"

definition dropna_axis1 :: "ncols \<Rightarrow> ncols" where
  "dropna_axis1 levels = filter (\<lambda>c. None \<notin> set (snd c)) levels"

definition drop_zero_step :: "ncols \<Rightarrow> string \<Rightarrow> error + ncols" where
  "drop_zero_step levels col =
     (case map_of levels col of
        None \<Rightarrow> Inl KeyError
      | Some c \<Rightarrow> if nmax c = Some 0 \<and> nmin c = Some 0
                  then Inr (filter (\<lambda>x. fst x \<noteq> col) levels) else Inr levels)"

datatype level = Level_series "real list" | Level_frame ncols

definition plot_zone_level ::
  "time list \<Rightarrow> string list \<Rightarrow> frame \<Rightarrow> (string \<Rightarrow> frame) \<Rightarrow> error + level" where
  "plot_zone_level idx sets_t level filter_by_tech =
     (let aggregation = False;
          levels = map (\<lambda>t. (t, replicate (length idx) None)) sets_t
      in bind_err (fold_err (levels_assign idx filter_by_tech)
                     [''HDAM'', ''HPHS'', ''BEVS'', ''BATS'', ''SCSP'', ''P2GS''] levels) (\<lambda>levels.
         let levels = dropna_axis1 levels
         in bind_err (fold_err drop_zero_step (map fst levels) levels) (\<lambda>levels.
            if aggregation then Inr (Level_series (map snd (frame_sum_axis1 level)))
            else Inr (Level_frame levels))))"

text \<open>The test of line 384: a column whose maximum and minimum are both 0.\<close>

definition zero_level :: "real option list \<Rightarrow> bool" where
  "zero_level c \<longleftrightarrow> nmax c = Some 0 \<and> nmin c = Some 0"

section \<open>\<open>get_congestion\<close>\<close>

text \<open>
  \<open>p in x\<close> on strings, \<open>df.loc[idx, l]\<close> (the values of column \<open>l\<close> at the timestamps
  \<open>idx\<close>; \<open>KeyError\<close> when the column or one of the timestamps is missing) and
  \<open>df.loc[idx, :].index.size\<close>.
\<close>

definition in_str :: "string \<Rightarrow> string \<Rightarrow> bool" where
  "in_str p x = list_ex (\<lambda>i. take (length p) (drop i x) = p) [0..<Suc (length x)]"

definition loc_rows :: "frame \<Rightarrow> time list \<Rightarrow> string \<Rightarrow> error + real list" where
  "loc_rows df idx l =
     (case map_of (fcols df) l of
        None \<Rightarrow> Inl KeyError
      | Some c \<Rightarrow> (case those (map (map_of (zip (findex df) c)) idx) of
                     None \<Rightarrow> Inl KeyError
                   | Some vs \<Rightarrow> Inr vs))"

definition loc_size :: "frame \<Rightarrow> time list \<Rightarrow> error + nat" where
  "loc_size df idx = (if list_all (\<lambda>t. t \<in> set (findex df)) idx then Inr (length idx) else Inl KeyError)"

text \<open>
  \<open>cgst.loc[0, l] = v\<close> on a frame with no row or with the one row \<open>0\<close>: the row is
  created with not a number in every column, the column is appended when it is new.
\<close>

definition loc_set0 :: "ncols \<Rightarrow> string \<Rightarrow> real \<Rightarrow> ncols" where
  "loc_set0 cgst l v =
     set_col (map (\<lambda>c. (fst c, if snd c = [] then [None] else snd c)) cgst) l [Some v]"

definition congested :: "real list \<Rightarrow> real list \<Rightarrow> nat" where
  "congested flow flow_max = length (filter (\<lambda>x. fst x = snd x \<and> snd x > 0) (zip flow flow_max))"

text \<open>
  \<^verbatim>\<open>
  def get_congestion(inputs, flows, idx):
      cols = [ x for x in inputs['sets']['l'] if "RoW" not in x ]
      cgst = pd.DataFrame(columns=cols)
      for l in flows:
          if l[:3] != 'RoW' and l[-3:] != 'RoW':
              cgst.loc[0, l] = (
                  (flows.loc[idx, l] == inputs['param_df']['FlowMaximum'].loc[idx, l]) & (
                   inputs['param_df']['FlowMaximum'].loc[idx, l] > 0)).sum()
      cgst.fillna(0, inplace=True)
      cgst = cgst / inputs['param_df']['Demand'].loc[idx, :].index.size
      return cgst
  \<close>
  \<open>sets_l\<close>, \<open>flow_maximum\<close> and \<open>demand\<close> are \<open>inputs['sets']['l']\<close>,
  \<open>inputs['param_df']['FlowMaximum']\<close> and \<open>inputs['param_df']['Demand']\<close>. With an empty
  window the quotient is \<open>0 / 0\<close>, which is not a number.
\<close>

definition get_congestion_step :: "frame \<Rightarrow> frame \<Rightarrow> time list \<Rightarrow> ncols \<Rightarrow> string \<Rightarrow> error + ncols" where
  "get_congestion_step flow_maximum flows idx cgst l =
     (if take 3 l \<noteq> ''RoW'' \<and> drop (length l - 3) l \<noteq> ''RoW''
      then bind_err (loc_rows flows idx l) (\<lambda>flow.
           bind_err (loc_rows flow_maximum idx l) (\<lambda>flow_max.
           Inr (loc_set0 cgst l (real (congested flow flow_max)))))
      else Inr cgst)"

definition cell_div :: "nat \<Rightarrow> real option \<Rightarrow> real option" where
  "cell_div n v = (case v of None \<Rightarrow> None | Some x \<Rightarrow> if n = 0 then None else Some (x / real n))"

definition get_congestion ::
  "string list \<Rightarrow> frame \<Rightarrow> frame \<Rightarrow> frame \<Rightarrow> time list \<Rightarrow> error + ncols" where
  "get_congestion sets_l flow_maximum demand flows idx =
     (let cols = filter (\<lambda>x. \<not> in_str ''RoW'' x) sets_l;
          cgst = map (\<lambda>k. (k, [])) cols
      in bind_err (fold_err (get_congestion_step flow_maximum flows idx) (labels flows) cgst) (\<lambda>cgst.
         let cgst = map (\<lambda>c. (fst c, map (\<lambda>v. case v of None \<Rightarrow> Some 0 | Some x \<Rightarrow> Some x) (snd c))) cgst
         in bind_err (loc_size demand idx) (\<lambda>size.
            Inr (map (\<lambda>c. (fst c, map (cell_div size) (snd c))) cgst))))"

text \<open>The count that \<open>get_congestion\<close> stores for a line, as a function of the line.\<close>

definition congestion_value :: "frame \<Rightarrow> frame \<Rightarrow> time list \<Rightarrow> string \<Rightarrow> real" where
  "congestion_value flow_maximum flows idx l =
     (case (loc_rows flows idx l, loc_rows flow_maximum idx l) of
        (Inr flow, Inr flow_max) \<Rightarrow> real (congested flow flow_max)
      | _ \<Rightarrow> 0)"

section \<open>The specification's wording\<close>

text \<open>
  Two definitions that follow the specification, not the code: a series reindexed to an
  index with every missing timestamp filled with 0, and the residual of the energy balance,
  time step by time step: the sum of the columns of the generation frame, minus the demand,
  plus the shifted load, plus the shed load.
\<close>

definition reindexed_fill0 :: "series \<Rightarrow> time list \<Rightarrow> series" where
  "reindexed_fill0 s idx = map (\<lambda>t. (t, case map_of s t of None \<Rightarrow> 0 | Some v \<Rightarrow> v)) idx"

definition balance_residual :: "frame \<Rightarrow> series \<Rightarrow> series \<Rightarrow> series \<Rightarrow> real list" where
  "balance_residual gen demand shifted shed =
     map (\<lambda>i. (\<Sum>c\<leftarrow>fcols gen. snd c ! i) - snd (demand ! i) + snd (shifted ! i) + snd (shed ! i))
         [0..<length demand]"

section \<open>Example inputs\<close>

definition flows_pair :: frame where
  "flows_pair = \<lparr>findex = [0, 1],
                  fcols = [(''FlowOut'', [-5, -3]), (''FlowIn'', [2, 7]), (''GAS'', [60, 60])]\<rparr>"

definition flows_in_only :: frame where
  "flows_in_only = \<lparr>findex = [0, 1], fcols = [(''FlowIn'', [2, 7]), (''GAS'', [60, 60])]\<rparr>"

definition stack_example :: frame where
  "stack_example = \<lparr>findex = [0, 1],
     fcols = [(''Export'', [-5, -5]), (''Curtail'', [0, 0]), (''Gas'', [60, 60]), (''Wind'', [40, 42])]\<rparr>"

definition demand_example :: series where
  "demand_example = [(0, 100), (1, 100)]"

definition stack_example_dispatch :: dispatch where
  "stack_example_dispatch =
     \<lparr>d_idx_zero = 2,
      d_sumplot_neg = \<lparr>findex = [0, 1],
        fcols = [(''sum'', [-5, -5]), (''Export'', [0, 0]), (''Curtail'', [0, 0])]\<rparr>,
      d_sumplot_pos = \<lparr>findex = [0, 1],
        fcols = [(''zero'', [0, 0]), (''Gas'', [60, 60]), (''Wind'', [100, 102])]\<rparr>,
      d_reduced_demand = [(0, 100), (1, 100)],
      d_load_changed = False\<rparr>"

definition zero_label_frame :: frame where
  "zero_label_frame = \<lparr>findex = [0], fcols = [(''zero'', [1]), (''Gas'', [2])]\<rparr>"

definition short_shed :: series where
  "short_shed = [(0, 1)]"

definition zone_plot_data :: frame where
  "zone_plot_data = \<lparr>findex = [0, 1], fcols = [(''GAS'', [60000, 60000]), (''WIN'', [40000, 42000])]\<rparr>"

definition zone_results :: "string \<rightharpoonup> frame" where
  "zone_results = [''OutputShedLoad'' \<mapsto> \<lparr>findex = [1], fcols = [(''BE'', [2000])]\<rparr>,
                   ''OutputDemandModulation'' \<mapsto> \<lparr>findex = [0], fcols = [(''BE'', [-1000])]\<rparr>]"

definition zone_plot_data_balanced :: frame where
  "zone_plot_data_balanced =
     \<lparr>findex = [0, 1], fcols = [(''GAS'', [60000, 60000]), (''WIN'', [40000, 40000])]\<rparr>"

definition congestion_flows :: frame where
  "congestion_flows = \<lparr>findex = [0, 1, 2, 3],
     fcols = [(''A -> B'', [10, 10, 5, 0]), (''RoW -> A'', [1, 1, 1, 1])]\<rparr>"

definition congestion_flow_maximum :: frame where
  "congestion_flow_maximum = \<lparr>findex = [0, 1, 2, 3],
     fcols = [(''A -> B'', [10, 10, 10, 0]), (''RoW -> A'', [1, 1, 1, 1])]\<rparr>"

definition congestion_demand :: frame where
  "congestion_demand = \<lparr>findex = [0, 1, 2, 3], fcols = [(''DA_A'', [7, 7, 7, 7])]\<rparr>"

definition levels_filter_example :: "string \<Rightarrow> frame" where
  "levels_filter_example t =
     (if t = ''HDAM'' then \<lparr>findex = [0, 1], fcols = [(''u1'', [1, 2]), (''u2'', [3, 4])]\<rparr>
      else \<lparr>findex = [0, 1], fcols = []\<rparr>)"

section \<open>Netting of the interconnection flows\<close>

lemma map_of_set_col: "map_of (set_col cs k v) = (map_of cs)(k \<mapsto> v)"
  by (induction cs k v rule: set_col.induct) (auto simp: fun_eq_iff)

lemma labels_set_col_present:
  "map_of cs k \<noteq> None \<Longrightarrow> map fst (set_col cs k v) = map fst cs"
  by (induction cs k v rule: set_col.induct) auto

lemma set_col_same: "map_of cs k = Some v \<Longrightarrow> set_col cs k v = cs"
  by (induction cs k v rule: set_col.induct) (auto split: if_splits)

lemma vadd_net_out:
  "map (min 0) (vadd (map (max 0) (vadd b a)) (map (min 0) (vadd a b))) = map (min 0) (vadd a b)"
  unfolding vadd_def
  by (induction a b rule: list_induct2') auto

lemma vadd_net_in:
  "map (max 0) (vadd (map (min 0) (vadd a b)) (map (max 0) (vadd b a))) = map (max 0) (vadd b a)"
  unfolding vadd_def
  by (induction a b rule: list_induct2') auto

lemma netting_both:
  assumes "map_of (fcols p) ''FlowIn'' = Some fi" "map_of (fcols p) ''FlowOut'' = Some fo"
  shows "plot_dispatch_netting p =
           p\<lparr>fcols := set_col (set_col (fcols p) ''FlowOut'' (map (min 0) (vadd fi fo)))
                              ''FlowIn'' (map (max 0) (vadd fo fi))\<rparr>"
  using assms by (simp add: plot_dispatch_netting_def)

lemma netting_not_both:
  assumes "map_of (fcols p) ''FlowIn'' = None \<or> map_of (fcols p) ''FlowOut'' = None"
  shows "plot_dispatch_netting p = p"
  using assms by (auto simp: plot_dispatch_netting_def split: option.splits)

text \<open>
  Claim C2. On a frame that has both a \<open>FlowIn\<close> and a \<open>FlowOut\<close> column the netting step
  replaces them, row by row, with \<open>min(0, FlowIn + FlowOut)\<close> in \<open>FlowOut\<close> and
  \<open>max(0, FlowIn + FlowOut)\<close> in \<open>FlowIn\<close>; every other column, the order of the columns
  and the index stay as they are. When exactly one of the two columns exists the frame
  passes through unchanged.
\<close>

theorem netting_pair:
  "(map_of (fcols plotdata) ''FlowIn'' = Some flow_in \<and>
    map_of (fcols plotdata) ''FlowOut'' = Some flow_out \<longrightarrow>
      map_of (fcols (plot_dispatch_netting plotdata)) ''FlowOut''
        = Some (map2 (\<lambda>i out. min 0 (i + out)) flow_in flow_out) \<and>
      map_of (fcols (plot_dispatch_netting plotdata)) ''FlowIn''
        = Some (map2 (\<lambda>i out. max 0 (i + out)) flow_in flow_out) \<and>
      (\<forall>l. l \<noteq> ''FlowIn'' \<and> l \<noteq> ''FlowOut'' \<longrightarrow>
         map_of (fcols (plot_dispatch_netting plotdata)) l = map_of (fcols plotdata) l) \<and>
      labels (plot_dispatch_netting plotdata) = labels plotdata \<and>
      findex (plot_dispatch_netting plotdata) = findex plotdata) \<and>
   ((map_of (fcols plotdata) ''FlowIn'' = None) \<noteq> (map_of (fcols plotdata) ''FlowOut'' = None) \<longrightarrow>
      plot_dispatch_netting plotdata = plotdata)"
proof (intro conjI impI)
  assume "(map_of (fcols plotdata) ''FlowIn'' = None) \<noteq> (map_of (fcols plotdata) ''FlowOut'' = None)"
  then show "plot_dispatch_netting plotdata = plotdata"
    by (intro netting_not_both) auto
next
  assume a: "map_of (fcols plotdata) ''FlowIn'' = Some flow_in \<and>
    map_of (fcols plotdata) ''FlowOut'' = Some flow_out"
  then have n: "plot_dispatch_netting plotdata =
           plotdata\<lparr>fcols := set_col (set_col (fcols plotdata) ''FlowOut'' (map (min 0) (vadd flow_in flow_out)))
                              ''FlowIn'' (map (max 0) (vadd flow_out flow_in))\<rparr>"
    by (simp add: netting_both)
  have mo: "map (min 0) (vadd flow_in flow_out) = map2 (\<lambda>i out. min 0 (i + out)) flow_in flow_out"
    unfolding vadd_def by (induction flow_in flow_out rule: list_induct2') auto
  have mi: "map (max 0) (vadd flow_out flow_in) = map2 (\<lambda>i out. max 0 (i + out)) flow_in flow_out"
    unfolding vadd_def by (induction flow_in flow_out rule: list_induct2') (auto simp: add.commute)
  show "map_of (fcols (plot_dispatch_netting plotdata)) ''FlowOut''
        = Some (map2 (\<lambda>i out. min 0 (i + out)) flow_in flow_out)"
    by (simp add: n map_of_set_col mo)
  show "map_of (fcols (plot_dispatch_netting plotdata)) ''FlowIn''
        = Some (map2 (\<lambda>i out. max 0 (i + out)) flow_in flow_out)"
    by (simp add: n map_of_set_col mi)
  show "\<forall>l. l \<noteq> ''FlowIn'' \<and> l \<noteq> ''FlowOut'' \<longrightarrow>
         map_of (fcols (plot_dispatch_netting plotdata)) l = map_of (fcols plotdata) l"
    by (simp add: n map_of_set_col)
  show "labels (plot_dispatch_netting plotdata) = labels plotdata"
    using a by (simp add: n labels_def labels_set_col_present map_of_set_col)
  show "findex (plot_dispatch_netting plotdata) = findex plotdata"
    by (simp add: n)
qed

theorem netting_pair_witness:
  "map_of (fcols flows_pair) ''FlowIn'' = Some [2, 7] \<and>
   map_of (fcols flows_pair) ''FlowOut'' = Some [-5, -3] \<and>
   map_of (fcols (plot_dispatch_netting flows_pair)) ''FlowOut'' = Some [-3, 0] \<and>
   map_of (fcols (plot_dispatch_netting flows_pair)) ''FlowIn'' = Some [0, 4] \<and>
   map_of (fcols (plot_dispatch_netting flows_pair)) ''GAS'' = Some [60, 60] \<and>
   (map_of (fcols flows_in_only) ''FlowIn'' = None) \<noteq> (map_of (fcols flows_in_only) ''FlowOut'' = None) \<and>
   plot_dispatch_netting flows_in_only = flows_in_only"
  using netting_pair [of flows_pair "[2, 7]" "[-5, -3]"] netting_pair [of flows_in_only "[]" "[]"]
  by (simp add: flows_pair_def flows_in_only_def)

text \<open>
  Claim C3. The netting step is idempotent: applied to its own result it changes
  nothing, whatever the signs of the two flow columns are.
\<close>

theorem netting_idempotent:
  "plot_dispatch_netting (plot_dispatch_netting plotdata) = plot_dispatch_netting plotdata"
proof (cases "map_of (fcols plotdata) ''FlowIn''")
  case None
  then show ?thesis by (simp add: netting_not_both)
next
  case (Some fi)
  show ?thesis
  proof (cases "map_of (fcols plotdata) ''FlowOut''")
    case None
    then show ?thesis by (simp add: netting_not_both)
  next
    case (Some fo)
    let ?out = "map (min 0) (vadd fi fo)" and ?in = "map (max 0) (vadd fo fi)"
    let ?cs = "set_col (set_col (fcols plotdata) ''FlowOut'' ?out) ''FlowIn'' ?in"
    have n1: "plot_dispatch_netting plotdata = plotdata\<lparr>fcols := ?cs\<rparr>"
      using \<open>map_of (fcols plotdata) ''FlowIn'' = Some fi\<close> Some by (rule netting_both)
    have i: "map_of ?cs ''FlowIn'' = Some ?in" by (simp add: map_of_set_col)
    have o: "map_of ?cs ''FlowOut'' = Some ?out" by (simp add: map_of_set_col)
    have "plot_dispatch_netting (plotdata\<lparr>fcols := ?cs\<rparr>) =
            plotdata\<lparr>fcols := set_col (set_col ?cs ''FlowOut'' (map (min 0) (vadd ?in ?out)))
                                  ''FlowIn'' (map (max 0) (vadd ?out ?in))\<rparr>"
      using i o by (simp add: netting_both)
    also have "set_col ?cs ''FlowOut'' (map (min 0) (vadd ?in ?out)) = ?cs"
      using o by (simp only: vadd_net_out set_col_same)
    also have "set_col ?cs ''FlowIn'' (map (max 0) (vadd ?out ?in)) = ?cs"
      using i by (simp only: vadd_net_in set_col_same)
    finally show ?thesis by (simp only: n1)
  qed
qed

section \<open>The stacked layout\<close>

lemma filter_label_unique:
  "distinct (map fst cs) \<Longrightarrow> d \<in> set cs \<Longrightarrow> filter (\<lambda>c. fst c = fst d) cs = [d]"
proof (induction cs)
  case Nil
  then show ?case by simp
next
  case (Cons a cs)
  show ?case
  proof (cases "d = a")
    case True
    have "fst a \<notin> fst ` set cs"
      using Cons.prems(1) by simp
    then have "\<forall>c\<in>set cs. fst c \<noteq> fst a"
      by (metis imageI)
    then have "filter (\<lambda>c. fst c = fst a) cs = []"
      by (simp add: filter_empty_conv)
    with True show ?thesis by simp
  next
    case False
    with Cons.prems have "d \<in> set cs" "fst a \<noteq> fst d" by force+
    with Cons show ?thesis by simp
  qed
qed

lemma select_cols_sublist:
  "distinct (map fst cs) \<Longrightarrow> set ds \<subseteq> set cs \<Longrightarrow> select_cols cs (map fst ds) = ds"
  by (induction ds) (simp_all add: select_cols_def filter_label_unique)

lemma select_cols_take:
  "distinct (map fst cs) \<Longrightarrow> select_cols cs (take k (map fst cs)) = take k cs"
  by (simp add: take_map select_cols_sublist set_take_subset)

lemma select_cols_drop:
  "distinct (map fst cs) \<Longrightarrow> select_cols cs (drop k (map fst cs)) = drop k cs"
  by (simp add: drop_map select_cols_sublist set_drop_subset)

lemma set_col_fresh: "k \<notin> set (map fst cs) \<Longrightarrow> set_col cs k v = cs @ [(k, v)]"
  by (induction cs k v rule: set_col.induct) auto

lemma foldl_set_col_fresh:
  "distinct (map fst ds) \<Longrightarrow> set (map fst ds) \<inter> set (map fst acc) = {} \<Longrightarrow>
   foldl (\<lambda>df c. set_col df (fst c) (g (snd c))) acc ds = acc @ map (\<lambda>c. (fst c, g (snd c))) ds"
proof (induction ds arbitrary: acc)
  case Nil
  then show ?case by simp
next
  case (Cons d ds)
  have f: "set_col acc (fst d) (g (snd d)) = acc @ [(fst d, g (snd d))]"
    using Cons.prems(2) by (intro set_col_fresh) auto
  have "foldl (\<lambda>df c. set_col df (fst c) (g (snd c))) (acc @ [(fst d, g (snd d))]) ds
          = (acc @ [(fst d, g (snd d))]) @ map (\<lambda>c. (fst c, g (snd c))) ds"
    using Cons.prems by (intro Cons.IH) auto
  then show ?case by (simp add: f)
qed

lemma labels_cumsum_from: "map fst (cumsum_from acc cs) = map fst cs"
  by (induction acc cs rule: cumsum_from.induct) auto

lemma last_cumsum_from:
  "cs \<noteq> [] \<Longrightarrow> snd (last (cumsum_from acc cs)) = foldl vadd acc (map snd cs)"
proof (induction acc cs rule: cumsum_from.induct)
  case (1 acc)
  then show ?case by simp
next
  case (2 acc l c r)
  then show ?case by (cases r) auto
qed

lemma cumsum_from_nonempty: "cs \<noteq> [] \<Longrightarrow> cumsum_from acc cs \<noteq> []"
  by (cases cs) auto

lemma length_vadd: "length (vadd a b) = min (length a) (length b)"
  by (simp add: vadd_def)

lemma length_foldl_vadd:
  "list_all (\<lambda>c. length c = length acc) cs \<Longrightarrow> length (foldl vadd acc cs) = length acc"
  by (induction cs arbitrary: acc) (auto simp: length_vadd)

lemma nth_foldl_vadd:
  "list_all (\<lambda>c. length c = length acc) cs \<Longrightarrow> i < length acc \<Longrightarrow>
   foldl vadd acc cs ! i = acc ! i + (\<Sum>c\<leftarrow>cs. c ! i)"
proof (induction cs arbitrary: acc)
  case Nil
  then show ?case by simp
next
  case (Cons c cs)
  have l: "length (vadd acc c) = length acc" using Cons.prems by (simp add: length_vadd)
  have "foldl vadd (vadd acc c) cs ! i = vadd acc c ! i + (\<Sum>c\<leftarrow>cs. c ! i)"
    using Cons.prems l by (intro Cons.IH) auto
  moreover have "vadd acc c ! i = acc ! i + c ! i"
    using Cons.prems by (simp add: vadd_def)
  ultimately show ?case by simp
qed

lemma vadd_zeros_length: "vadd (zeros (length c)) c = c"
  unfolding vadd_def zeros_def by (induction c) auto

lemma vadd_zeros: "length c = n \<Longrightarrow> vadd (zeros n) c = c"
  using vadd_zeros_length by blast

lemma zero_line_loop_bound: "i < length cs \<Longrightarrow> zero_line_loop cs i < length cs"
proof (induction cs i rule: zero_line_loop.induct)
  case (1 cs idx_zero)
  show ?case
  proof (cases "mean_le_zero (snd (cs ! idx_zero)) \<and> int idx_zero < int (length cs) - 1")
    case True
    then have "idx_zero + 1 < length cs" by linarith
    with 1 True show ?thesis by (subst zero_line_loop.simps) simp
  next
    case False
    with 1 show ?thesis by (subst zero_line_loop.simps) auto
  qed
qed


lemma sumplot_neg_cols:
  assumes "distinct (labels p)" "''sum'' \<notin> set (take k (labels p))"
  shows "fcols (plot_dispatch_sumplot_neg p k) =
           cumsum_from (zeros (length (findex p)))
             ((''sum'', sum_axis1 (length (findex p)) (take k (fcols p)))
              # map (\<lambda>c. (fst c, map uminus (snd c))) (take k (fcols p)))"
proof -
  have d: "distinct (map fst (fcols p))" using assms(1) by (simp add: labels_def)
  have sel: "select_cols (fcols p) (take k (labels p)) = take k (fcols p)"
    using d by (simp add: labels_def select_cols_take)
  have d2: "distinct (map fst (take k (fcols p)))"
    using d by (simp add: take_map [symmetric] distinct_take)
  have "set (map fst (take k (fcols p))) \<inter> set (map fst [(''sum'', sum_axis1 (length (findex p)) (take k (fcols p)))]) = {}"
    using assms(2) by (simp add: labels_def take_map)
  then have "foldl (\<lambda>df c. set_col df (fst c) (map uminus (snd c)))
               [(''sum'', sum_axis1 (length (findex p)) (take k (fcols p)))] (take k (fcols p))
             = [(''sum'', sum_axis1 (length (findex p)) (take k (fcols p)))]
               @ map (\<lambda>c. (fst c, map uminus (snd c))) (take k (fcols p))"
    using d2 by (rule foldl_set_col_fresh [rotated])
  then show ?thesis
    by (simp add: plot_dispatch_sumplot_neg_def Let_def sel cumsum_axis1_def)
qed

lemma sumplot_pos_cols:
  assumes "distinct (labels p)" "''zero'' \<notin> set (drop k (labels p))"
  shows "fcols (plot_dispatch_sumplot_pos p k) =
           (''zero'', zeros (length (findex p)))
           # cumsum_from (zeros (length (findex p))) (drop k (fcols p))"
proof -
  let ?n = "length (findex p)"
  let ?sp = "cumsum_from (zeros ?n) (drop k (fcols p))"
  have d: "distinct (map fst (fcols p))" using assms(1) by (simp add: labels_def)
  have sel: "select_cols (fcols p) (drop k (labels p)) = drop k (fcols p)"
    using d by (simp add: labels_def select_cols_drop)
  have l: "map fst ?sp = drop k (map fst (fcols p))"
    by (simp add: labels_cumsum_from drop_map)
  have fresh: "''zero'' \<notin> set (map fst ?sp)"
    using assms(2) by (simp add: l labels_def)
  have sc: "set_col ?sp ''zero'' (zeros ?n) = ?sp @ [(''zero'', zeros ?n)]"
    using fresh by (rule set_col_fresh)
  have d3: "distinct (map fst (?sp @ [(''zero'', zeros ?n)]))"
    using fresh d by (simp add: l distinct_drop)
  have f1: "filter (\<lambda>c. fst c = ''zero'') (?sp @ [(''zero'', zeros ?n)]) = [(''zero'', zeros ?n)]"
    using filter_label_unique [OF d3, of "(''zero'', zeros ?n)"] by simp
  have f2: "select_cols (?sp @ [(''zero'', zeros ?n)]) (map fst ?sp) = ?sp"
    using d3 by (intro select_cols_sublist) auto
  have "select_cols (?sp @ [(''zero'', zeros ?n)]) (''zero'' # map fst ?sp)
          = (''zero'', zeros ?n) # ?sp"
    using f1 f2 by (simp add: select_cols_def)
  then show ?thesis
    by (simp add: plot_dispatch_sumplot_pos_def Let_def sel cumsum_axis1_def sc)
qed


lemma sum_set_col:
  "map_of cs k = Some old \<Longrightarrow>
   (\<Sum>c\<leftarrow>set_col cs k v. snd c ! i) = (\<Sum>c\<leftarrow>cs. snd c ! i) - old ! i + v ! (i::nat)"
  for cs :: cols
  by (induction cs k v rule: set_col.induct) (auto split: if_splits)

lemma list_all_set_col:
  "list_all P cs \<Longrightarrow> P (k, v) \<Longrightarrow> list_all P (set_col cs k v)"
  by (induction cs k v rule: set_col.induct) auto

lemma wf_col_length:
  "wf_frame p \<Longrightarrow> map_of (fcols p) k = Some c \<Longrightarrow> length c = length (findex p)"
  by (auto simp: wf_frame_def list_all_iff dest!: map_of_SomeD)

lemma netting_labels: "labels (plot_dispatch_netting p) = labels p"
proof (cases "map_of (fcols p) ''FlowIn'' = None \<or> map_of (fcols p) ''FlowOut'' = None")
  case True
  then show ?thesis by (simp add: netting_not_both)
next
  case False
  then obtain fi fo where "map_of (fcols p) ''FlowIn'' = Some fi" "map_of (fcols p) ''FlowOut'' = Some fo"
    by auto
  then show ?thesis
    by (simp add: netting_both labels_def labels_set_col_present map_of_set_col)
qed

lemma netting_findex: "findex (plot_dispatch_netting p) = findex p"
  by (simp add: plot_dispatch_netting_def split: option.splits)

lemma netting_wf:
  assumes "wf_frame p"
  shows "wf_frame (plot_dispatch_netting p)"
proof (cases "map_of (fcols p) ''FlowIn'' = None \<or> map_of (fcols p) ''FlowOut'' = None")
  case True
  with assms show ?thesis by (simp add: netting_not_both)
next
  case False
  then obtain fi fo where fi: "map_of (fcols p) ''FlowIn'' = Some fi"
    and fo: "map_of (fcols p) ''FlowOut'' = Some fo"
    by auto
  have len: "length fi = length (findex p)" "length fo = length (findex p)"
    using assms fi fo by (auto dest: wf_col_length)
  have "list_all (\<lambda>c. length (snd c) = length (findex p))
          (set_col (set_col (fcols p) ''FlowOut'' (map (min 0) (vadd fi fo)))
             ''FlowIn'' (map (max 0) (vadd fo fi)))"
    using assms len
    by (intro list_all_set_col) (simp_all add: wf_frame_def length_vadd)
  moreover have "distinct (labels (plot_dispatch_netting p))"
    using assms by (simp add: netting_labels wf_frame_def)
  ultimately show ?thesis
    using fi fo by (simp add: wf_frame_def netting_findex) (simp add: netting_both)
qed

lemma netting_row_sum:
  assumes "wf_frame p" "i < length (findex p)"
  shows "(\<Sum>c\<leftarrow>fcols (plot_dispatch_netting p). snd c ! i) = (\<Sum>c\<leftarrow>fcols p. snd c ! i)"
proof (cases "map_of (fcols p) ''FlowIn'' = None \<or> map_of (fcols p) ''FlowOut'' = None")
  case True
  then show ?thesis by (simp add: netting_not_both)
next
  case False
  then obtain fi fo where fi: "map_of (fcols p) ''FlowIn'' = Some fi"
    and fo: "map_of (fcols p) ''FlowOut'' = Some fo"
    by auto
  have len: "i < length fi" "i < length fo"
    using assms fi fo by (auto dest: wf_col_length)
  let ?out = "map (min 0) (vadd fi fo)" and ?in = "map (max 0) (vadd fo fi)"
  have o: "?out ! i = min 0 (fi ! i + fo ! i)" using len by (simp add: vadd_def)
  have n: "?in ! i = max 0 (fo ! i + fi ! i)" using len by (simp add: vadd_def)
  have m: "map_of (set_col (fcols p) ''FlowOut'' ?out) ''FlowIn'' = Some fi"
    using fi by (simp add: map_of_set_col)
  have "(\<Sum>c\<leftarrow>set_col (set_col (fcols p) ''FlowOut'' ?out) ''FlowIn'' ?in. snd c ! i)
          = (\<Sum>c\<leftarrow>fcols p. snd c ! i) - fo ! i + ?out ! i - fi ! i + ?in ! i"
    by (simp only: sum_set_col [OF m] sum_set_col [OF fo])
  also have "\<dots> = (\<Sum>c\<leftarrow>fcols p. snd c ! i)"
    unfolding o n by (simp add: min_def max_def)
  finally show ?thesis using fi fo by (simp add: netting_both)
qed

lemma layout_conservation:
  assumes wf: "wf_frame p" and s: "''sum'' \<notin> set (labels p)" and z: "''zero'' \<notin> set (labels p)"
    and k: "k < length (fcols p)"
  shows "\<exists>lower upper.
           map_of (fcols (plot_dispatch_sumplot_neg p k)) ''sum'' = Some lower \<and>
           fcols (plot_dispatch_sumplot_pos p k) \<noteq> [] \<and>
           snd (last (fcols (plot_dispatch_sumplot_pos p k))) = upper \<and>
           (\<forall>i<length (findex p). upper ! i + lower ! i = (\<Sum>c\<leftarrow>fcols p. snd c ! i))"
proof -
  let ?n = "length (findex p)"
  let ?neg = "map snd (take k (fcols p))" and ?pos = "map snd (drop k (fcols p))"
  have d: "distinct (labels p)" using wf by (simp add: wf_frame_def)
  have all: "list_all (\<lambda>c. length c = length (zeros ?n)) (map snd (fcols p))"
    using wf by (simp add: wf_frame_def zeros_def list_all_iff)
  have alln: "list_all (\<lambda>c. length c = length (zeros ?n)) ?neg"
    using all by (auto simp: list_all_iff dest: in_set_takeD)
  have allp: "list_all (\<lambda>c. length c = length (zeros ?n)) ?pos"
    using all by (auto simp: list_all_iff dest: in_set_dropD)
  have ltmp: "length (sum_axis1 ?n (take k (fcols p))) = ?n"
    using length_foldl_vadd [OF alln] by (simp add: sum_axis1_def zeros_def)
  have s': "''sum'' \<notin> set (take k (labels p))"
    using s by (auto dest: in_set_takeD)
  have neg: "map_of (fcols (plot_dispatch_sumplot_neg p k)) ''sum''
               = Some (sum_axis1 ?n (take k (fcols p)))"
    by (simp add: sumplot_neg_cols [OF d s'] vadd_zeros [OF ltmp])
  have ne: "drop k (fcols p) \<noteq> []" using k by simp
  have pos: "fcols (plot_dispatch_sumplot_pos p k) =
               (''zero'', zeros ?n) # cumsum_from (zeros ?n) (drop k (fcols p))"
    using z d by (intro sumplot_pos_cols) (auto dest: in_set_dropD)
  have up: "snd (last (fcols (plot_dispatch_sumplot_pos p k))) = foldl vadd (zeros ?n) ?pos"
    using ne by (simp add: pos cumsum_from_nonempty last_cumsum_from)
  have "\<forall>i<?n. foldl vadd (zeros ?n) ?pos ! i + sum_axis1 ?n (take k (fcols p)) ! i
                 = (\<Sum>c\<leftarrow>fcols p. snd c ! i)"
  proof (intro allI impI)
    fix i assume i: "i < ?n"
    then have i': "i < length (zeros ?n)" by (simp add: zeros_def)
    have a: "foldl vadd (zeros ?n) ?pos ! i = (\<Sum>c\<leftarrow>drop k (fcols p). snd c ! i)"
      using nth_foldl_vadd [OF allp i'] i by (simp add: zeros_def comp_def)
    have b: "sum_axis1 ?n (take k (fcols p)) ! i = (\<Sum>c\<leftarrow>take k (fcols p). snd c ! i)"
      using nth_foldl_vadd [OF alln i'] i by (simp add: sum_axis1_def zeros_def comp_def)
    have "(\<Sum>c\<leftarrow>fcols p. snd c ! i)
            = (\<Sum>c\<leftarrow>take k (fcols p) @ drop k (fcols p). snd c ! i)"
      by simp
    also have "\<dots> = (\<Sum>c\<leftarrow>take k (fcols p). snd c ! i) + (\<Sum>c\<leftarrow>drop k (fcols p). snd c ! i)"
      by (simp only: map_append sum_list.append)
    finally show "foldl vadd (zeros ?n) ?pos ! i + sum_axis1 ?n (take k (fcols p)) ! i
                    = (\<Sum>c\<leftarrow>fcols p. snd c ! i)"
      using a b by simp
  qed
  with neg up pos show ?thesis by simp
qed


lemma plot_dispatch_fst:
  "fst (plot_dispatch demand p c s sh) = plot_dispatch_netting p"
  by (simp add: plot_dispatch_def Let_def)

lemma plot_dispatch_Inr:
  assumes "snd (plot_dispatch demand p c s sh) = Inr d"
  shows "fcols (plot_dispatch_netting p) \<noteq> []"
    and "d_idx_zero d = zero_line_loop (fcols (plot_dispatch_netting p)) 0"
    and "d_sumplot_neg d = plot_dispatch_sumplot_neg (plot_dispatch_netting p) (d_idx_zero d)"
    and "d_sumplot_pos d = plot_dispatch_sumplot_pos (plot_dispatch_netting p) (d_idx_zero d)"
  using assms
  by (auto simp: plot_dispatch_def Let_def bind_err_def plot_dispatch_idx_zero_def
           split: sum.splits if_splits)

lemma stack_example_run:
  "snd (plot_dispatch demand_example stack_example None None None) =
     Inr \<lparr>d_idx_zero = 2,
          d_sumplot_neg = \<lparr>findex = [0, 1],
            fcols = [(''sum'', [-5, -5]), (''Export'', [0, 0]), (''Curtail'', [0, 0])]\<rparr>,
          d_sumplot_pos = \<lparr>findex = [0, 1],
            fcols = [(''zero'', [0, 0]), (''Gas'', [60, 60]), (''Wind'', [100, 102])]\<rparr>,
          d_reduced_demand = [(0, 100), (1, 100)],
          d_load_changed = False\<rparr>"
  by (simp add: plot_dispatch_def plot_dispatch_netting_def stack_example_def demand_example_def
        Let_def bind_err_def plot_dispatch_idx_zero_def zero_line_loop.simps mean_le_zero_def
        mean_def plot_dispatch_curtailment_def plot_dispatch_load_change_def deduct_def
        plot_dispatch_sumplot_neg_def plot_dispatch_sumplot_pos_def labels_def select_cols_def
        sum_axis1_def cumsum_axis1_def zeros_def vadd_def constant_series_def index_def
        series_add_def)

lemma zero_label_run:
  "map_sum id
     (\<lambda>d. map_option (\<lambda>lower. snd (last (fcols (d_sumplot_pos d))) ! 0 + lower ! 0)
             (map_of (fcols (d_sumplot_neg d)) ''sum''))
     (snd (plot_dispatch [(0, 3)] zero_label_frame None None None))
   = Inr (Some 0)"
  by (simp add: plot_dispatch_def plot_dispatch_netting_def zero_label_frame_def
        Let_def bind_err_def plot_dispatch_idx_zero_def zero_line_loop.simps mean_le_zero_def
        mean_def plot_dispatch_curtailment_def plot_dispatch_load_change_def deduct_def
        plot_dispatch_sumplot_neg_def plot_dispatch_sumplot_pos_def labels_def select_cols_def
        sum_axis1_def cumsum_axis1_def zeros_def vadd_def constant_series_def index_def
        series_add_def)

text \<open>
  Claim C4 states the conservation for every dispatch frame. The layout adds two columns
  of its own to the blocks, \<open>sum\<close> and \<open>zero\<close>, and a frame that has a column of one of
  these names loses it: on the frame with the columns zero (1) and Gas (2) line 78
  overwrites the cumulated column \<open>zero\<close> with 0 and line 79 then selects it twice, so the
  final upper boundary of the positive block is 0, the column \<open>sum\<close> is 0, and the sum of
  the columns of the frame is 3.
\<close>

theorem stack_conservation_reserved_label:
  "map_sum id
     (\<lambda>d. map_option (\<lambda>lower. snd (last (fcols (d_sumplot_pos d))) ! 0 + lower ! 0)
             (map_of (fcols (d_sumplot_neg d)) ''sum''))
     (snd (plot_dispatch [(0, 3)] zero_label_frame None None None))
     = Inr (Some 0) \<and>
   (\<Sum>c\<leftarrow>fcols zero_label_frame. snd c ! 0) = 3 \<and>
   map_sum id
     (\<lambda>d. map_option (\<lambda>lower. snd (last (fcols (d_sumplot_pos d))) ! 0 + lower ! 0)
             (map_of (fcols (d_sumplot_neg d)) ''sum''))
     (snd (plot_dispatch [(0, 3)] zero_label_frame None None None))
     \<noteq> Inr (Some (\<Sum>c\<leftarrow>fcols zero_label_frame. snd c ! 0))"
proof -
  have "(\<Sum>c\<leftarrow>fcols zero_label_frame. snd c ! 0) = 3"
    by (simp add: zero_label_frame_def)
  then show ?thesis
    unfolding zero_label_run by simp
qed

text \<open>
  Claim C4, amended. Conservation of the stacked layout, for a frame none of whose labels
  is one of the two auxiliary names \<open>sum\<close> and \<open>zero\<close> that the layout adds. Whenever
  \<open>plot_dispatch\<close> gets as far as the layout of such a frame, the last column of the
  positive block (its final upper boundary) plus the column \<open>sum\<close> of the negative block
  (its lowest boundary, the signed sum of the negative columns) is, at every time step,
  the sum of all columns of the frame the caller passed in. The frame is a pandas frame:
  distinct labels, columns as long as the index.
\<close>

theorem stack_conservation:
  assumes "wf_frame plotdata"
    and "''sum'' \<notin> set (labels plotdata)" and "''zero'' \<notin> set (labels plotdata)"
    and "snd (plot_dispatch demand plotdata curtailment shedload shiftedload) = Inr d"
  shows "\<exists>lower upper.
           map_of (fcols (d_sumplot_neg d)) ''sum'' = Some lower \<and>
           fcols (d_sumplot_pos d) \<noteq> [] \<and>
           snd (last (fcols (d_sumplot_pos d))) = upper \<and>
           (\<forall>i<length (findex plotdata).
              upper ! i + lower ! i = (\<Sum>c\<leftarrow>fcols plotdata. snd c ! i))"
proof -
  let ?p = "plot_dispatch_netting plotdata"
  note r = plot_dispatch_Inr [OF assms(4)]
  have k: "d_idx_zero d < length (fcols ?p)"
    using r(1) by (simp add: r(2) zero_line_loop_bound)
  have "\<exists>lower upper.
           map_of (fcols (plot_dispatch_sumplot_neg ?p (d_idx_zero d))) ''sum'' = Some lower \<and>
           fcols (plot_dispatch_sumplot_pos ?p (d_idx_zero d)) \<noteq> [] \<and>
           snd (last (fcols (plot_dispatch_sumplot_pos ?p (d_idx_zero d)))) = upper \<and>
           (\<forall>i<length (findex ?p). upper ! i + lower ! i = (\<Sum>c\<leftarrow>fcols ?p. snd c ! i))"
    using assms(1-3) k by (intro layout_conservation) (simp_all add: netting_wf netting_labels)
  then show ?thesis
    using assms(1) by (simp add: r(3,4) netting_findex netting_row_sum)
qed

lemma stack_example_run_dispatch:
  "snd (plot_dispatch demand_example stack_example None None None) = Inr stack_example_dispatch"
  by (simp add: stack_example_run stack_example_dispatch_def)

theorem stack_conservation_witness:
  "wf_frame stack_example \<and> ''sum'' \<notin> set (labels stack_example) \<and>
   ''zero'' \<notin> set (labels stack_example) \<and>
   snd (plot_dispatch demand_example stack_example None None None) = Inr stack_example_dispatch \<and>
   (\<exists>lower upper.
      map_of (fcols (d_sumplot_neg stack_example_dispatch)) ''sum'' = Some lower \<and>
      fcols (d_sumplot_pos stack_example_dispatch) \<noteq> [] \<and>
      snd (last (fcols (d_sumplot_pos stack_example_dispatch))) = upper \<and>
      (\<forall>i<length (findex stack_example).
         upper ! i + lower ! i = (\<Sum>c\<leftarrow>fcols stack_example. snd c ! i)))"
proof -
  have h1: "wf_frame stack_example"
    by (simp add: wf_frame_def stack_example_def labels_def)
  have h2: "''sum'' \<notin> set (labels stack_example)"
    by (simp add: stack_example_def labels_def)
  have h3: "''zero'' \<notin> set (labels stack_example)"
    by (simp add: stack_example_def labels_def)
  note h4 = stack_example_run_dispatch
  from stack_conservation [OF h1 h2 h3 h4] h1 h2 h3 h4 show ?thesis by blast
qed

text \<open>
  Claim C5 states that for the frame with the columns Export (-5, -5), Curtail (0, 0),
  Gas (60, 60) and Wind (40, 42) the negative block is Export alone. The code does not
  produce that layout.
\<close>

theorem stack_example_negative_block:
  "map_sum id (\<lambda>d. (bands (fcols (d_sumplot_neg d)), map snd (fcols (d_sumplot_pos d))))
     (snd (plot_dispatch demand_example stack_example None None None))
   \<noteq> Inr ([(''Export'', [-5, -5], [0, 0])], [[0, 0], [60, 60], [100, 102]])"
  by (simp add: stack_example_run bands_def)

text \<open>
  Claim C5, amended. The loop that looks for the zero line moves on while the mean of a
  column is at most zero, so the column Curtail, whose mean is 0, belongs to the negative
  block: the zero line is at column 2, the negative block is Export, between -5 and 0,
  followed by Curtail, between 0 and 0, and the positive block is Gas, between 0 and 60,
  followed by Wind, between 60 and 100 at the first time step and between 60 and 102 at
  the second, so that its boundaries are 0, 60, 100 and 0, 60, 102.
\<close>

theorem stack_example_layout:
  "map_sum id (\<lambda>d. (d_idx_zero d, bands (fcols (d_sumplot_neg d)), bands (fcols (d_sumplot_pos d))))
     (snd (plot_dispatch demand_example stack_example None None None))
   = Inr (2, [(''Export'', [-5, -5], [0, 0]), (''Curtail'', [0, 0], [0, 0])],
             [(''Gas'', [0, 0], [60, 60]), (''Wind'', [60, 60], [100, 102])])"
  by (simp add: stack_example_run bands_def)

section \<open>Index checks\<close>

lemma netting_fcols_empty: "fcols (plot_dispatch_netting p) = [] \<longleftrightarrow> fcols p = []"
  using netting_labels [of p] unfolding labels_def by (metis map_is_Nil_conv)

text \<open>
  Claim C7. When a curtailment, shed-load or shifted-load series is passed whose index is
  not equal, timestamp by timestamp, to the index of the demand, \<open>plot_dispatch\<close> produces
  no result: it leaves through \<open>sys.exit(1)\<close> (on a frame without any column the zero line
  search has raised \<open>IndexError\<close> before). A shed-load series that lacks a timestamp of the
  demand is such a series; it is not aligned or reindexed.
\<close>

theorem index_mismatch_exits:
  assumes "(\<exists>c. curtailment = Some c \<and> index c \<noteq> index demand) \<or>
           (\<exists>s. shedload = Some s \<and> index s \<noteq> index demand) \<or>
           (\<exists>s. shiftedload = Some s \<and> index s \<noteq> index demand)"
  shows "isl (snd (plot_dispatch demand plotdata curtailment shedload shiftedload)) \<and>
         (fcols plotdata \<noteq> [] \<longrightarrow>
            snd (plot_dispatch demand plotdata curtailment shedload shiftedload) = Inl (SystemExit 1))"
proof -
  have "bind_err (plot_dispatch_curtailment demand curtailment) (\<lambda>_.
          bind_err (plot_dispatch_load_change demand shedload shiftedload) f) = Inl (SystemExit 1)"
    for f :: "series \<times> bool \<Rightarrow> error + dispatch"
    using assms
    by (auto simp: bind_err_def plot_dispatch_curtailment_def plot_dispatch_load_change_def
          deduct_def split: option.splits sum.splits)
  then show ?thesis
    by (simp add: plot_dispatch_def Let_def plot_dispatch_idx_zero_def netting_fcols_empty
          bind_err_def)
qed

theorem index_mismatch_exits_witness:
  "index short_shed \<noteq> index demand_example \<and>
   isl (snd (plot_dispatch demand_example stack_example None (Some short_shed) None)) \<and>
   fcols stack_example \<noteq> [] \<and>
   snd (plot_dispatch demand_example stack_example None (Some short_shed) None) = Inl (SystemExit 1)"
proof -
  have h: "index short_shed \<noteq> index demand_example"
    by (simp add: short_shed_def demand_example_def index_def)
  have ne: "fcols stack_example \<noteq> []" by (simp add: stack_example_def)
  from index_mismatch_exits [of None demand_example "Some short_shed" None stack_example] h ne
  show ?thesis by simp
qed

section \<open>The caller's frame\<close>

lemma netting_flow_cols:
  assumes "map_of (fcols p) ''FlowIn'' = Some fi" "map_of (fcols p) ''FlowOut'' = Some fo"
  shows "map_of (fcols (plot_dispatch_netting p)) ''FlowOut''
           = Some (map2 (\<lambda>i out. min 0 (i + out)) fi fo)"
    and "map_of (fcols (plot_dispatch_netting p)) ''FlowIn''
           = Some (map2 (\<lambda>i out. max 0 (i + out)) fi fo)"
proof -
  have mo: "map (min 0) (vadd fi fo) = map2 (\<lambda>i out. min 0 (i + out)) fi fo"
    unfolding vadd_def by (induction fi fo rule: list_induct2') auto
  have mi: "map (max 0) (vadd fo fi) = map2 (\<lambda>i out. max 0 (i + out)) fi fo"
    unfolding vadd_def by (induction fi fo rule: list_induct2') (auto simp: add.commute)
  show "map_of (fcols (plot_dispatch_netting p)) ''FlowOut''
           = Some (map2 (\<lambda>i out. min 0 (i + out)) fi fo)"
    using assms by (simp add: netting_both map_of_set_col mo)
  show "map_of (fcols (plot_dispatch_netting p)) ''FlowIn''
           = Some (map2 (\<lambda>i out. max 0 (i + out)) fi fo)"
    using assms by (simp add: netting_both map_of_set_col mi)
qed

lemma netting_other_cols:
  assumes "l \<noteq> ''FlowIn''" "l \<noteq> ''FlowOut''"
  shows "map_of (fcols (plot_dispatch_netting p)) l = map_of (fcols p) l"
proof (cases "map_of (fcols p) ''FlowIn'' = None \<or> map_of (fcols p) ''FlowOut'' = None")
  case True
  then show ?thesis by (simp add: netting_not_both)
next
  case False
  then obtain fi fo where "map_of (fcols p) ''FlowIn'' = Some fi" "map_of (fcols p) ''FlowOut'' = Some fo"
    by auto
  then show ?thesis using assms by (simp add: netting_both map_of_set_col)
qed

text \<open>
  Claim C9 states that no input object is changed by a call. The frame passed to
  \<open>plot_dispatch\<close> is: after a call on a frame with both flow columns the caller's frame
  holds the netted values.
\<close>

theorem plot_dispatch_overwrites_flows:
  "fst (plot_dispatch demand_example flows_pair None None None) \<noteq> flows_pair"
  by (simp add: plot_dispatch_fst plot_dispatch_netting_def flows_pair_def vadd_def Let_def)

text \<open>
  Claim C9, amended. \<open>plot_dispatch\<close> writes to the caller's frame only in the netting
  step: the index, the labels and their order, and every column other than \<open>FlowIn\<close> and
  \<open>FlowOut\<close> hold the same values after the call as before it, also when the call fails;
  a frame that lacks one of the two flow columns is left as it was; on a frame that has
  both, the two columns hold the netted pair after the call.
\<close>

theorem plot_dispatch_frame_effect:
  "findex (fst (plot_dispatch demand plotdata curtailment shedload shiftedload)) = findex plotdata \<and>
   labels (fst (plot_dispatch demand plotdata curtailment shedload shiftedload)) = labels plotdata \<and>
   (\<forall>l. l \<noteq> ''FlowIn'' \<and> l \<noteq> ''FlowOut'' \<longrightarrow>
      map_of (fcols (fst (plot_dispatch demand plotdata curtailment shedload shiftedload))) l
        = map_of (fcols plotdata) l) \<and>
   (map_of (fcols plotdata) ''FlowIn'' = None \<or> map_of (fcols plotdata) ''FlowOut'' = None \<longrightarrow>
      fst (plot_dispatch demand plotdata curtailment shedload shiftedload) = plotdata) \<and>
   (map_of (fcols plotdata) ''FlowIn'' = Some flow_in \<and>
    map_of (fcols plotdata) ''FlowOut'' = Some flow_out \<longrightarrow>
      map_of (fcols (fst (plot_dispatch demand plotdata curtailment shedload shiftedload))) ''FlowOut''
        = Some (map2 (\<lambda>i out. min 0 (i + out)) flow_in flow_out) \<and>
      map_of (fcols (fst (plot_dispatch demand plotdata curtailment shedload shiftedload))) ''FlowIn''
        = Some (map2 (\<lambda>i out. max 0 (i + out)) flow_in flow_out))"
  unfolding plot_dispatch_fst
  by (intro conjI allI impI)
     (simp_all add: netting_findex netting_labels netting_other_cols netting_not_both
        netting_flow_cols)

theorem plot_dispatch_frame_effect_witness:
  "map_of (fcols flows_pair) ''FlowIn'' = Some [2, 7] \<and>
   map_of (fcols flows_pair) ''FlowOut'' = Some [-5, -3] \<and>
   snd (plot_dispatch demand_example flows_pair None (Some short_shed) None) = Inl (SystemExit 1) \<and>
   fst (plot_dispatch demand_example flows_pair None (Some short_shed) None) =
     \<lparr>findex = [0, 1], fcols = [(''FlowOut'', [-3, 0]), (''FlowIn'', [0, 4]), (''GAS'', [60, 60])]\<rparr> \<and>
   map_of (fcols (fst (plot_dispatch demand_example flows_pair None (Some short_shed) None))) ''GAS''
     = map_of (fcols flows_pair) ''GAS'' \<and>
   map_of (fcols flows_in_only) ''FlowOut'' = None \<and>
   fst (plot_dispatch demand_example flows_in_only None None None) = flows_in_only"
proof -
  have a: "map_of (fcols flows_pair) ''FlowIn'' = Some [2, 7]"
    and b: "map_of (fcols flows_pair) ''FlowOut'' = Some [-5, -3]"
    by (simp_all add: flows_pair_def)
  have c: "map_of (fcols flows_in_only) ''FlowOut'' = None"
    by (simp add: flows_in_only_def)
  have e: "snd (plot_dispatch demand_example flows_pair None (Some short_shed) None) = Inl (SystemExit 1)"
    by (simp add: plot_dispatch_def Let_def bind_err_def plot_dispatch_idx_zero_def
          netting_fcols_empty plot_dispatch_curtailment_def plot_dispatch_load_change_def
          deduct_def index_def short_shed_def demand_example_def flows_pair_def)
  have f: "fst (plot_dispatch demand_example flows_pair None (Some short_shed) None) =
     \<lparr>findex = [0, 1], fcols = [(''FlowOut'', [-3, 0]), (''FlowIn'', [0, 4]), (''GAS'', [60, 60])]\<rparr>"
    by (simp add: plot_dispatch_fst plot_dispatch_netting_def flows_pair_def vadd_def Let_def)
  note t1 = plot_dispatch_frame_effect
    [of demand_example flows_pair None "Some short_shed" None "[2, 7]" "[-5, -3]"]
  note t2 = plot_dispatch_frame_effect [of demand_example flows_in_only None None None "[]" "[]"]
  from t1 have "\<forall>l. l \<noteq> ''FlowIn'' \<and> l \<noteq> ''FlowOut'' \<longrightarrow>
      map_of (fcols (fst (plot_dispatch demand_example flows_pair None (Some short_shed) None))) l
        = map_of (fcols flows_pair) l"
    by blast
  then have g: "map_of (fcols (fst (plot_dispatch demand_example flows_pair None (Some short_shed) None))) ''GAS''
     = map_of (fcols flows_pair) ''GAS''"
    by simp
  from t2 c have i: "fst (plot_dispatch demand_example flows_in_only None None None) = flows_in_only"
    by blast
  from a b c e f g i
  show ?thesis by blast
qed

section \<open>The energy balance of a zone\<close>

lemma index_fillna: "index (fillna d s) = index s"
  by (simp add: index_def fillna_def comp_def)

lemma index_series_div: "index (series_div s k) = index s"
  by (simp add: index_def series_div_def comp_def)

lemma index_series_neg: "index (series_neg s) = index s"
  by (simp add: index_def series_neg_def comp_def)

lemma index_constant_series: "index (constant_series v idx) = idx"
  by (simp add: index_def constant_series_def comp_def)

lemma reindex_index: "reindex s idx = Inr r \<Longrightarrow> index r = idx"
  by (auto simp: reindex_def index_def comp_def split: if_splits)

lemma map_of_distinct_self:
  "distinct (map fst s) \<Longrightarrow> map (\<lambda>t. (t, map_of s t)) (map fst s) = map (\<lambda>x. (fst x, Some (snd x))) s"
  by (induction s) (auto simp: rev_image_eqI)

lemma reindex_distinct:
  assumes "distinct (index s)"
  shows "reindex s idx = Inr (map (\<lambda>t. (t, map_of s t)) idx)"
proof (cases "index s = idx")
  case True
  then have "map (\<lambda>t. (t, map_of s t)) idx = map (\<lambda>x. (fst x, Some (snd x))) s"
    using assms map_of_distinct_self [of s] by (simp add: index_def)
  with True show ?thesis by (simp add: reindex_def)
next
  case False
  with assms show ?thesis by (simp add: reindex_def)
qed

lemma fillna_reindex_distinct:
  assumes "distinct (index s)"
  shows "bind_err (reindex s idx) (\<lambda>r. Inr (fillna 0 r)) = Inr (reindexed_fill0 s idx)"
  by (simp add: reindex_distinct [OF assms] bind_err_def fillna_def reindexed_fill0_def comp_def)

lemma shed_load_index:
  "plot_zone_shed_load results z demand = Inr sl \<Longrightarrow> index sl = index demand"
  by (auto simp: plot_zone_shed_load_def bind_err_def index_fillna index_series_div
        index_constant_series split: option.splits sum.splits dest: reindex_index)

lemma shifted_load_index:
  "plot_zone_shifted_load results z demand = Inr sl \<Longrightarrow> index sl = index demand"
  by (auto simp: plot_zone_shifted_load_def bind_err_def index_fillna index_series_div
        index_constant_series split: option.splits sum.splits dest: reindex_index)

lemma plot_zone_unfold:
  assumes "plot_zone_shed_load results z demand = Inr shed_load"
    and "plot_zone_shifted_load results z demand = Inr shifted_load"
  shows "plot_zone plot_data demand results z =
           (plot_zone_balance_log
              (plot_zone_diff (frame_div plot_data 1000) demand shifted_load shed_load) demand z,
            bind_err (snd (plot_dispatch demand (frame_div plot_data 1000)
                             (plot_zone_curtailment results z) (Some shed_load) (Some shifted_load)))
                     (\<lambda>_. Inr True))"
  using assms by (simp add: plot_zone_def Let_def)

lemma plot_dispatch_loads_ok:
  assumes "index shed_load = index demand" "index shifted_load = index demand"
  shows "snd (plot_dispatch demand p c (Some shed_load) (Some shifted_load)) = Inl (SystemExit n)
         \<Longrightarrow> \<exists>s. c = Some s \<and> index s \<noteq> index demand"
    and "fcols p \<noteq> [] \<Longrightarrow> (\<forall>s. c = Some s \<longrightarrow> index s = index demand)
         \<Longrightarrow> \<exists>d. snd (plot_dispatch demand p c (Some shed_load) (Some shifted_load)) = Inr d"
  using assms
  by (auto simp: plot_dispatch_def Let_def bind_err_def plot_dispatch_idx_zero_def
        plot_dispatch_curtailment_def plot_dispatch_load_change_def deduct_def
        netting_fcols_empty split: sum.splits option.splits if_splits)

lemma plot_zone_no_load_exit:
  assumes "snd (plot_zone plot_data demand results z) = Inl (SystemExit n)"
  shows "\<exists>c. plot_zone_curtailment results z = Some c \<and> index c \<noteq> index demand"
proof (cases "plot_zone_shed_load results z demand")
  case (Inl e)
  then have "e = ValueError"
    by (auto simp: plot_zone_shed_load_def bind_err_def reindex_def split: option.splits sum.splits if_splits)
  with Inl assms show ?thesis by (simp add: plot_zone_def Let_def)
next
  case shed: (Inr sl)
  show ?thesis
  proof (cases "plot_zone_shifted_load results z demand")
    case (Inl e)
    then have "e = ValueError"
      by (auto simp: plot_zone_shifted_load_def bind_err_def reindex_def split: option.splits sum.splits if_splits)
    with Inl shed assms show ?thesis by (simp add: plot_zone_def Let_def)
  next
    case (Inr sh)
    have "snd (plot_dispatch demand (frame_div plot_data 1000) (plot_zone_curtailment results z)
                 (Some sl) (Some sh)) = Inl (SystemExit n)"
      using assms by (simp add: plot_zone_unfold [OF shed Inr] bind_err_def split: sum.splits)
    then show ?thesis
      by (rule plot_dispatch_loads_ok(1) [OF shed_load_index [OF shed] shifted_load_index [OF Inr]])
  qed
qed

lemma zone_results_columns:
  "zone_column zone_results ''OutputShedLoad'' ''BE'' = Some [(1, 2000)]"
  "zone_column zone_results ''OutputDemandModulation'' ''BE'' = Some [(0, -1000)]"
  "zone_column zone_results ''OutputCurtailedPower'' ''BE'' = None"
  by (simp_all add: zone_column_def zone_results_def)

lemma zone_example_loads:
  "reindexed_fill0 (series_div [(1, 2000)] 1000) (index demand_example) = [(0, 0), (1, 2)]"
  "reindexed_fill0 (series_div (series_neg [(0, -1000)]) 1000) (index demand_example) = [(0, 1), (1, 0)]"
  by (simp_all add: reindexed_fill0_def series_div_def series_neg_def index_def demand_example_def)

lemma length_index: "length (index s) = length s"
  by (simp add: index_def)

lemma index_eq_length: "index a = index b \<Longrightarrow> length a = length b"
  by (metis length_index)

lemma align_op_same:
  assumes "index a = index b"
  shows "index (align_op f a b) = index a"
    and "length (align_op f a b) = length a"
    and "i < length a \<Longrightarrow> snd (align_op f a b ! i) = lift2 f (snd (a ! i)) (snd (b ! i))"
proof -
  have l: "length a = length b" using assms by (rule index_eq_length)
  have e: "align_op f a b = map2 (\<lambda>x y. (fst x, lift2 f (snd x) (snd y))) a b"
    using assms by (simp add: align_op_def)
  show "length (align_op f a b) = length a" using l by (simp add: e)
  show "index (align_op f a b) = index a"
    unfolding e index_def using l
    by (intro nth_equalityI) simp_all
  show "i < length a \<Longrightarrow> snd (align_op f a b ! i) = lift2 f (snd (a ! i)) (snd (b ! i))"
    using l by (simp add: e)
qed

lemma index_some_series: "index (some_series s) = index s"
  by (simp add: some_series_def index_def comp_def)

lemma nth_some_series: "i < length s \<Longrightarrow> snd (some_series s ! i) = Some (snd (s ! i))"
  by (simp add: some_series_def)

lemma length_some_series: "length (some_series s) = length s"
  by (simp add: some_series_def)

lemma wf_frame_div: "wf_frame p \<Longrightarrow> wf_frame (frame_div p k)"
  by (simp add: wf_frame_def frame_div_def labels_def comp_def list_all_iff)

lemma findex_frame_div: "findex (frame_div p k) = findex p"
  by (simp add: frame_div_def)

lemma fcols_frame_div_empty: "fcols (frame_div p k) = [] \<longleftrightarrow> fcols p = []"
  by (simp add: frame_div_def)

lemma wf_columns:
  "wf_frame p \<Longrightarrow> list_all (\<lambda>c. length c = length (zeros (length (findex p)))) (map snd (fcols p))"
  by (simp add: wf_frame_def zeros_def list_all_iff)

lemma frame_sum_axis1_props:
  assumes "wf_frame p"
  shows "index (frame_sum_axis1 p) = findex p"
    and "length (frame_sum_axis1 p) = length (findex p)"
    and "i < length (findex p) \<Longrightarrow> snd (frame_sum_axis1 p ! i) = (\<Sum>c\<leftarrow>fcols p. snd c ! i)"
proof -
  have l: "length (sum_axis1 (length (findex p)) (fcols p)) = length (findex p)"
    using length_foldl_vadd [OF wf_columns [OF assms]] by (simp add: sum_axis1_def zeros_def)
  show "index (frame_sum_axis1 p) = findex p"
    using l by (simp add: frame_sum_axis1_def index_def)
  show "length (frame_sum_axis1 p) = length (findex p)"
    using l by (simp add: frame_sum_axis1_def)
  assume i: "i < length (findex p)"
  then have "sum_axis1 (length (findex p)) (fcols p) ! i = (\<Sum>c\<leftarrow>fcols p. snd c ! i)"
    using nth_foldl_vadd [OF wf_columns [OF assms], of i]
    by (simp add: sum_axis1_def zeros_def comp_def)
  then show "snd (frame_sum_axis1 p ! i) = (\<Sum>c\<leftarrow>fcols p. snd c ! i)"
    using i l by (simp add: frame_sum_axis1_def)
qed

lemma plot_zone_diff_closed:
  assumes wf: "wf_frame gen" and g: "findex gen = index demand"
    and sh: "index shifted = index demand" and sl: "index shed = index demand"
  shows "index (plot_zone_diff gen demand shifted shed) = index demand"
    and "map snd (plot_zone_diff gen demand shifted shed)
           = map (\<lambda>r. Some \<bar>r\<bar>) (balance_residual gen demand shifted shed)"
proof -
  let ?a = "some_series (frame_sum_axis1 gen)"
  let ?d1 = "align_op (-) ?a (some_series demand)"
  let ?d2 = "align_op (+) ?d1 (some_series shifted)"
  let ?d3 = "align_op (+) ?d2 (some_series shed)"
  have n: "length (findex gen) = length demand" using g by (simp add: length_index)
  have lsh: "length shifted = length demand" using sh by (rule index_eq_length)
  have lsl: "length shed = length demand" using sl by (rule index_eq_length)
  have ig: "index (frame_sum_axis1 gen) = index demand"
    using frame_sum_axis1_props(1) [OF wf] g by (rule trans)
  then have ia: "index ?a = index (some_series demand)"
    by (simp only: index_some_series)
  have la: "length ?a = length demand"
    by (simp add: length_some_series frame_sum_axis1_props(2) [OF wf] n)
  have i1: "index ?d1 = index (some_series shifted)"
    by (simp add: align_op_same(1) [OF ia] index_some_series sh ig)
  have l1: "length ?d1 = length demand"
    by (simp add: align_op_same(2) [OF ia] la)
  have i2: "index ?d2 = index (some_series shed)"
    by (simp add: align_op_same(1) [OF i1] align_op_same(1) [OF ia] index_some_series sh sl ig)
  have l2: "length ?d2 = length demand"
    by (simp add: align_op_same(2) [OF i1] l1)
  have i3: "index ?d3 = index demand"
    by (simp add: align_op_same(1) [OF i2] align_op_same(1) [OF i1] align_op_same(1) [OF ia]
          index_some_series sl ig)
  have l3: "length ?d3 = length demand"
    by (simp add: align_op_same(2) [OF i2] l2)
  show "index (plot_zone_diff gen demand shifted shed) = index demand"
    using i3 by (simp add: plot_zone_diff_def series_abs_def index_def comp_def)
  have v: "snd (?d3 ! i) = Some ((\<Sum>c\<leftarrow>fcols gen. snd c ! i) - snd (demand ! i)
                                  + snd (shifted ! i) + snd (shed ! i))"
    if i: "i < length demand" for i
  proof -
    have "snd (?a ! i) = Some (\<Sum>c\<leftarrow>fcols gen. snd c ! i)"
      using i n by (simp add: nth_some_series frame_sum_axis1_props(2,3) [OF wf])
    then have "snd (?d1 ! i) = Some ((\<Sum>c\<leftarrow>fcols gen. snd c ! i) - snd (demand ! i))"
      using i la by (simp add: align_op_same(3) [OF ia] nth_some_series lift2_def)
    then have "snd (?d2 ! i) = Some ((\<Sum>c\<leftarrow>fcols gen. snd c ! i) - snd (demand ! i) + snd (shifted ! i))"
      using i l1 lsh by (simp add: align_op_same(3) [OF i1] nth_some_series lift2_def)
    then show ?thesis
      using i l2 lsl by (simp add: align_op_same(3) [OF i2] nth_some_series lift2_def)
  qed
  show "map snd (plot_zone_diff gen demand shifted shed)
           = map (\<lambda>r. Some \<bar>r\<bar>) (balance_residual gen demand shifted shed)"
  proof (intro nth_equalityI)
    show "length (map snd (plot_zone_diff gen demand shifted shed))
            = length (map (\<lambda>r. Some \<bar>r\<bar>) (balance_residual gen demand shifted shed))"
      using l3 by (simp add: plot_zone_diff_def series_abs_def balance_residual_def)
  next
    fix i assume "i < length (map snd (plot_zone_diff gen demand shifted shed))"
    then have i: "i < length demand"
      using l3 by (simp add: plot_zone_diff_def series_abs_def)
    then show "map snd (plot_zone_diff gen demand shifted shed) ! i
                 = map (\<lambda>r. Some \<bar>r\<bar>) (balance_residual gen demand shifted shed) ! i"
      using v [OF i] l3 by (simp add: plot_zone_diff_def series_abs_def balance_residual_def)
  qed
qed

lemma dropna_Some: "dropna (map (\<lambda>r. Some (f r)) xs) = map f xs"
  by (induction xs) (simp_all add: dropna_def)

lemma series_max_Max: "series_max xs = (if xs = [] then None else Some (Max (set xs)))"
  by (cases xs) (simp_all add: series_max_def Max.set_eq_fold [symmetric])

lemma balance_log_closed:
  assumes "map snd diff = map (\<lambda>r. Some \<bar>r\<bar>) residual" "length residual = length demand"
  shows "plot_zone_balance_log diff demand z =
           (if demand \<noteq> [] \<and> Max (set (map abs residual)) > 0.01 * Max (set (map snd demand))
            then [Critical_balance
                    (if Max (set (map snd demand)) = 0 then Infinite
                     else Percent (Max (set (map abs residual)) / Max (set (map snd demand)) * 100)) z]
            else [])"
proof -
  have "nmax (map snd diff) = (if residual = [] then None else Some (Max (set (map abs residual))))"
    by (simp add: nmax_def assms(1) dropna_Some series_max_Max)
  moreover have "residual = [] \<longleftrightarrow> demand = []" using assms(2) by auto
  ultimately show ?thesis
    by (simp add: plot_zone_balance_log_def series_max_Max)
qed

lemmas plot_zone_eval =
  plot_zone_def plot_zone_shed_load_def plot_zone_shifted_load_def zone_column_def
  plot_zone_curtailment_def plot_zone_diff_def plot_zone_balance_log_def frame_div_def
  frame_sum_axis1_def sum_axis1_def zeros_def vadd_def some_series_def align_op_def lift2_def
  series_abs_def nmax_def dropna_def series_max_def series_div_def series_neg_def
  constant_series_def index_def reindex_def fillna_def bind_err_def Let_def
  plot_dispatch_def plot_dispatch_netting_def plot_dispatch_idx_zero_def
  plot_dispatch_curtailment_def plot_dispatch_load_change_def deduct_def series_add_def

lemma zone_example_empty_results:
  "plot_zone_shed_load Map.empty ''BE'' demand_example = Inr [(0, 0), (1, 0)]"
  "plot_zone_shifted_load Map.empty ''BE'' demand_example = Inr [(0, 0), (1, 0)]"
  "plot_zone zone_plot_data demand_example Map.empty ''BE'' = ([Critical_balance (Percent 2) ''BE''], Inr True)"
  "plot_zone zone_plot_data_balanced demand_example Map.empty ''BE'' = ([], Inr True)"
  by (simp_all add: plot_zone_eval zone_plot_data_def zone_plot_data_balanced_def demand_example_def)

lemma zone_example_results:
  "plot_zone zone_plot_data demand_example zone_results ''BE'' = ([Critical_balance (Percent 4) ''BE''], Inr True)"
  by (simp add: plot_zone_eval zone_plot_data_def demand_example_def zone_results_def)


lemma length_balance_residual: "length (balance_residual gen demand shifted shed) = length demand"
  by (simp add: balance_residual_def)

text \<open>
  Claim C1. For a generation frame on the index of the demand, and the shed load and the
  shifted load \<open>plot_zone\<close> works with (both on the index of the demand), the series \<open>diff\<close>
  holds, at every time step, the absolute value of the residual: the sum of the columns of
  the generation frame, minus the demand, plus the shifted load, plus the shed load. The
  message about the energy balance is logged if and only if the largest absolute residual
  is greater than 0.01 times the largest demand, and it carries the deviation in per
  cent. The message is advisory: the outcome of \<open>plot_zone\<close> is the outcome of the call of
  \<open>plot_dispatch\<close> that follows, whether the message was logged or not, and that call
  returns whenever the frame has a column and the curtailment, if there is one, is on the
  index of the demand.
\<close>

theorem balance_check:
  assumes "wf_frame plot_data" and "findex plot_data = index demand"
    and "plot_zone_shed_load results z demand = Inr shed_load"
    and "plot_zone_shifted_load results z demand = Inr shifted_load"
  shows
   "index (plot_zone_diff (frame_div plot_data 1000) demand shifted_load shed_load) = index demand \<and>
    map snd (plot_zone_diff (frame_div plot_data 1000) demand shifted_load shed_load)
      = map (\<lambda>r. Some \<bar>r\<bar>)
          (balance_residual (frame_div plot_data 1000) demand shifted_load shed_load) \<and>
    fst (plot_zone plot_data demand results z) =
      (if demand \<noteq> [] \<and>
          Max (set (map abs (balance_residual (frame_div plot_data 1000) demand shifted_load shed_load)))
            > 0.01 * Max (set (map snd demand))
       then [Critical_balance
               (if Max (set (map snd demand)) = 0 then Infinite
                else Percent (Max (set (map abs
                       (balance_residual (frame_div plot_data 1000) demand shifted_load shed_load)))
                     / Max (set (map snd demand)) * 100)) z]
       else []) \<and>
    snd (plot_zone plot_data demand results z) =
      bind_err (snd (plot_dispatch demand (frame_div plot_data 1000)
                       (plot_zone_curtailment results z) (Some shed_load) (Some shifted_load)))
               (\<lambda>_. Inr True) \<and>
    (fcols plot_data \<noteq> [] \<and>
     (\<forall>c. plot_zone_curtailment results z = Some c \<longrightarrow> index c = index demand) \<longrightarrow>
       snd (plot_zone plot_data demand results z) = Inr True)"
proof -
  let ?gen = "frame_div plot_data 1000"
  have wf: "wf_frame ?gen" using assms(1) by (rule wf_frame_div)
  have g: "findex ?gen = index demand" using assms(2) by (simp add: findex_frame_div)
  note sl = shed_load_index [OF assms(3)]
  note sh = shifted_load_index [OF assms(4)]
  note d = plot_zone_diff_closed [OF wf g sh sl]
  note u = plot_zone_unfold [OF assms(3,4), of plot_data]
  have "fcols plot_data \<noteq> [] \<and>
     (\<forall>c. plot_zone_curtailment results z = Some c \<longrightarrow> index c = index demand) \<longrightarrow>
       snd (plot_zone plot_data demand results z) = Inr True"
  proof
    assume a: "fcols plot_data \<noteq> [] \<and>
      (\<forall>c. plot_zone_curtailment results z = Some c \<longrightarrow> index c = index demand)"
    then have "fcols ?gen \<noteq> []" by (simp add: fcols_frame_div_empty)
    with a obtain r where
      "snd (plot_dispatch demand ?gen (plot_zone_curtailment results z)
              (Some shed_load) (Some shifted_load)) = Inr r"
      using plot_dispatch_loads_ok(2) [OF sl sh] by blast
    then show "snd (plot_zone plot_data demand results z) = Inr True"
      by (simp add: u bind_err_def)
  qed
  moreover have "fst (plot_zone plot_data demand results z) =
      (if demand \<noteq> [] \<and>
          Max (set (map abs (balance_residual ?gen demand shifted_load shed_load)))
            > 0.01 * Max (set (map snd demand))
       then [Critical_balance
               (if Max (set (map snd demand)) = 0 then Infinite
                else Percent (Max (set (map abs (balance_residual ?gen demand shifted_load shed_load)))
                     / Max (set (map snd demand)) * 100)) z]
       else [])"
    unfolding u fst_conv by (rule balance_log_closed [OF d(2) length_balance_residual])
  ultimately show ?thesis
    using d by (simp add: u)
qed

theorem balance_check_witness:
  "wf_frame zone_plot_data \<and> findex zone_plot_data = index demand_example \<and>
   plot_zone_shed_load Map.empty ''BE'' demand_example = Inr [(0, 0), (1, 0)] \<and>
   plot_zone_shifted_load Map.empty ''BE'' demand_example = Inr [(0, 0), (1, 0)] \<and>
   map snd (plot_zone_diff (frame_div zone_plot_data 1000) demand_example [(0, 0), (1, 0)] [(0, 0), (1, 0)])
     = map (\<lambda>r. Some \<bar>r\<bar>)
         (balance_residual (frame_div zone_plot_data 1000) demand_example [(0, 0), (1, 0)] [(0, 0), (1, 0)]) \<and>
   balance_residual (frame_div zone_plot_data 1000) demand_example [(0, 0), (1, 0)] [(0, 0), (1, 0)] = [0, 2] \<and>
   plot_zone zone_plot_data demand_example Map.empty ''BE'' = ([Critical_balance (Percent 2) ''BE''], Inr True) \<and>
   wf_frame zone_plot_data_balanced \<and> findex zone_plot_data_balanced = index demand_example \<and>
   balance_residual (frame_div zone_plot_data_balanced 1000) demand_example [(0, 0), (1, 0)] [(0, 0), (1, 0)] = [0, 0] \<and>
   plot_zone zone_plot_data_balanced demand_example Map.empty ''BE'' = ([], Inr True)"
proof -
  have h1: "wf_frame zone_plot_data" "wf_frame zone_plot_data_balanced"
    by (simp_all add: wf_frame_def zone_plot_data_def zone_plot_data_balanced_def labels_def)
  have h2: "findex zone_plot_data = index demand_example"
    "findex zone_plot_data_balanced = index demand_example"
    by (simp_all add: zone_plot_data_def zone_plot_data_balanced_def demand_example_def index_def)
  note h3 = zone_example_empty_results(1) and h4 = zone_example_empty_results(2)
  have r: "balance_residual (frame_div zone_plot_data 1000) demand_example [(0, 0), (1, 0)] [(0, 0), (1, 0)] = [0, 2]"
    "balance_residual (frame_div zone_plot_data_balanced 1000) demand_example [(0, 0), (1, 0)] [(0, 0), (1, 0)] = [0, 0]"
    by (simp_all add: balance_residual_def frame_div_def zone_plot_data_def
          zone_plot_data_balanced_def demand_example_def upt_rec)
  note t1 = balance_check [OF h1(1) h2(1) h3 h4]
  from t1 have m: "map snd (plot_zone_diff (frame_div zone_plot_data 1000) demand_example [(0, 0), (1, 0)] [(0, 0), (1, 0)])
     = map (\<lambda>r. Some \<bar>r\<bar>)
         (balance_residual (frame_div zone_plot_data 1000) demand_example [(0, 0), (1, 0)] [(0, 0), (1, 0)])"
    by blast
  from h1 h2 h3 h4 r m zone_example_empty_results(3,4) show ?thesis by blast
qed

text \<open>
  Claim C10. \<open>plot_zone\<close> reindexes the shed load and the modulated load of the results to
  the index of the demand and fills the timestamps they lack with 0, before it computes
  the residual and before it calls \<open>plot_dispatch\<close>: both series are on the index of the
  demand when they are passed on, so the only index check of \<open>plot_dispatch\<close> that can
  still fail on this path is the one of the curtailment.
\<close>

theorem plot_zone_reindexes_loads:
  "(zone_column results ''OutputShedLoad'' z = Some shed \<and> distinct (index shed) \<longrightarrow>
      plot_zone_shed_load results z demand
        = Inr (reindexed_fill0 (series_div shed 1000) (index demand))) \<and>
   (zone_column results ''OutputDemandModulation'' z = Some modulation \<and> distinct (index modulation) \<longrightarrow>
      plot_zone_shifted_load results z demand
        = Inr (reindexed_fill0 (series_div (series_neg modulation) 1000) (index demand))) \<and>
   (\<forall>shed_load shifted_load.
      plot_zone_shed_load results z demand = Inr shed_load \<and>
      plot_zone_shifted_load results z demand = Inr shifted_load \<longrightarrow>
        index shed_load = index demand \<and> index shifted_load = index demand \<and>
        plot_zone plot_data demand results z =
          (plot_zone_balance_log
             (plot_zone_diff (frame_div plot_data 1000) demand shifted_load shed_load) demand z,
           bind_err (snd (plot_dispatch demand (frame_div plot_data 1000)
                            (plot_zone_curtailment results z) (Some shed_load) (Some shifted_load)))
                    (\<lambda>_. Inr True))) \<and>
   (\<forall>n. snd (plot_zone plot_data demand results z) = Inl (SystemExit n) \<longrightarrow>
      (\<exists>c. plot_zone_curtailment results z = Some c \<and> index c \<noteq> index demand))"
proof (intro conjI allI impI)
  assume "zone_column results ''OutputShedLoad'' z = Some shed \<and> distinct (index shed)"
  then show "plot_zone_shed_load results z demand
        = Inr (reindexed_fill0 (series_div shed 1000) (index demand))"
    by (simp add: plot_zone_shed_load_def fillna_reindex_distinct index_series_div)
next
  assume "zone_column results ''OutputDemandModulation'' z = Some modulation \<and> distinct (index modulation)"
  then show "plot_zone_shifted_load results z demand
        = Inr (reindexed_fill0 (series_div (series_neg modulation) 1000) (index demand))"
    by (simp add: plot_zone_shifted_load_def fillna_reindex_distinct index_series_div index_series_neg)
next
  fix shed_load shifted_load
  assume a: "plot_zone_shed_load results z demand = Inr shed_load \<and>
      plot_zone_shifted_load results z demand = Inr shifted_load"
  show "index shed_load = index demand" using a shed_load_index by blast
  show "index shifted_load = index demand" using a shifted_load_index by blast
  show "plot_zone plot_data demand results z =
          (plot_zone_balance_log
             (plot_zone_diff (frame_div plot_data 1000) demand shifted_load shed_load) demand z,
           bind_err (snd (plot_dispatch demand (frame_div plot_data 1000)
                            (plot_zone_curtailment results z) (Some shed_load) (Some shifted_load)))
                    (\<lambda>_. Inr True))"
    using a by (simp add: plot_zone_unfold)
next
  fix n
  assume "snd (plot_zone plot_data demand results z) = Inl (SystemExit n)"
  then show "\<exists>c. plot_zone_curtailment results z = Some c \<and> index c \<noteq> index demand"
    by (rule plot_zone_no_load_exit)
qed

theorem plot_zone_reindexes_loads_witness:
  "zone_column zone_results ''OutputShedLoad'' ''BE'' = Some [(1, 2000)] \<and>
   distinct (index [(1 :: nat, 2000 :: real)]) \<and>
   index [(1 :: nat, 2000 :: real)] \<noteq> index demand_example \<and>
   plot_zone_shed_load zone_results ''BE'' demand_example = Inr [(0, 0), (1, 2)] \<and>
   zone_column zone_results ''OutputDemandModulation'' ''BE'' = Some [(0, -1000)] \<and>
   distinct (index [(0 :: nat, -1000 :: real)]) \<and>
   plot_zone_shifted_load zone_results ''BE'' demand_example = Inr [(0, 1), (1, 0)] \<and>
   index [(0 :: nat, 0 :: real), (1, 2)] = index demand_example \<and>
   plot_zone zone_plot_data demand_example zone_results ''BE''
     = ([Critical_balance (Percent 4) ''BE''], Inr True)"
proof -
  note t = plot_zone_reindexes_loads
    [of zone_results "''BE''" "[(1, 2000)]" demand_example "[(0, -1000)]" zone_plot_data]
  have d: "distinct (index [(1 :: nat, 2000 :: real)])" "distinct (index [(0 :: nat, -1000 :: real)])"
    "index [(1 :: nat, 2000 :: real)] \<noteq> index demand_example"
    "index [(0 :: nat, 0 :: real), (1, 2)] = index demand_example"
    by (simp_all add: index_def demand_example_def)
  from t zone_results_columns(1) d(1)
  have a: "plot_zone_shed_load zone_results ''BE'' demand_example
             = Inr (reindexed_fill0 (series_div [(1, 2000)] 1000) (index demand_example))"
    by blast
  from t zone_results_columns(2) d(2)
  have b: "plot_zone_shifted_load zone_results ''BE'' demand_example
             = Inr (reindexed_fill0 (series_div (series_neg [(0, -1000)]) 1000) (index demand_example))"
    by blast
  from a b zone_example_loads zone_results_columns(1,2) d zone_example_results
  show ?thesis by simp
qed

section \<open>Congestion of the lines\<close>

lemma map_of_map_snd:
  "map_of (map (\<lambda>c. (fst c, f (snd c))) cs) l = map_option f (map_of cs l)"
  by (induction cs) auto

lemma map_of_loc_set0:
  "map_of (loc_set0 cg l' v) l =
     (if l = l' then Some [Some v]
      else map_option (\<lambda>c. if c = [] then [None] else c) (map_of cg l))"
proof -
  have "map_of (map (\<lambda>c. (fst c, if snd c = [] then [None] else snd c)) cg) l
          = map_option (\<lambda>c. if c = [] then [None] else c) (map_of cg l)"
    by (induction cg) auto
  then show ?thesis by (simp add: loc_set0_def map_of_set_col)
qed

lemma congestion_step_cases:
  assumes "get_congestion_step fm fl idx cg l' = Inr cg'"
  shows "cg' = cg \<or>
         (take 3 l' \<noteq> ''RoW'' \<and> drop (length l' - 3) l' \<noteq> ''RoW'' \<and>
          (\<exists>flow flow_max. loc_rows fl idx l' = Inr flow \<and> loc_rows fm idx l' = Inr flow_max) \<and>
          cg' = loc_set0 cg l' (congestion_value fm fl idx l'))"
  using assms
  by (auto simp: get_congestion_step_def bind_err_def congestion_value_def
        split: if_splits sum.splits)

lemma congestion_step_keeps:
  assumes "get_congestion_step fm fl idx cg l' = Inr cg'"
    and "map_of cg l = Some [Some (congestion_value fm fl idx l)]"
  shows "map_of cg' l = Some [Some (congestion_value fm fl idx l)]"
  using congestion_step_cases [OF assms(1)] assms(2)
  by (auto simp: map_of_loc_set0)

lemma congestion_fold_keeps:
  "fold_err (get_congestion_step fm fl idx) ls cg = Inr cg' \<Longrightarrow>
   map_of cg l = Some [Some (congestion_value fm fl idx l)] \<Longrightarrow>
   map_of cg' l = Some [Some (congestion_value fm fl idx l)]"
proof (induction ls arbitrary: cg)
  case Nil
  then show ?case by simp
next
  case (Cons a ls)
  from Cons.prems(1) obtain cg1 where
    s: "get_congestion_step fm fl idx cg a = Inr cg1"
    and r: "fold_err (get_congestion_step fm fl idx) ls cg1 = Inr cg'"
    by (auto simp: bind_err_def split: sum.splits)
  show ?case
    using Cons.IH [OF r congestion_step_keeps [OF s Cons.prems(2)]] .
qed

lemma congestion_fold_sets:
  "fold_err (get_congestion_step fm fl idx) ls cg = Inr cg' \<Longrightarrow> l \<in> set ls \<Longrightarrow>
   take 3 l \<noteq> ''RoW'' \<Longrightarrow> drop (length l - 3) l \<noteq> ''RoW'' \<Longrightarrow>
   (\<exists>flow flow_max. loc_rows fl idx l = Inr flow \<and> loc_rows fm idx l = Inr flow_max) \<and>
   map_of cg' l = Some [Some (congestion_value fm fl idx l)]"
proof (induction ls arbitrary: cg)
  case Nil
  then show ?case by simp
next
  case (Cons a ls)
  from Cons.prems(1) obtain cg1 where
    s: "get_congestion_step fm fl idx cg a = Inr cg1"
    and r: "fold_err (get_congestion_step fm fl idx) ls cg1 = Inr cg'"
    by (auto simp: bind_err_def split: sum.splits)
  show ?case
  proof (cases "a = l")
    case True
    have q: "(\<exists>flow flow_max. loc_rows fl idx l = Inr flow \<and> loc_rows fm idx l = Inr flow_max) \<and>
          cg1 = loc_set0 cg l (congestion_value fm fl idx l)"
      using s Cons.prems(3,4) unfolding True
      by (auto simp: get_congestion_step_def bind_err_def congestion_value_def split: sum.splits)
    then have "map_of cg1 l = Some [Some (congestion_value fm fl idx l)]"
      by (simp add: map_of_loc_set0)
    from congestion_fold_keeps [OF r this] q show ?thesis by blast
  next
    case False
    with Cons.prems(2) have "l \<in> set ls" by simp
    from Cons.IH [OF r this Cons.prems(3,4)] show ?thesis .
  qed
qed

lemma those_Some: "those xs = Some ys \<Longrightarrow> xs = map Some ys"
  by (induction xs arbitrary: ys) (auto split: option.splits)

lemma loc_rows_Inr:
  assumes "loc_rows df idx l = Inr vs"
  shows "\<exists>c. map_of (fcols df) l = Some c \<and> map (map_of (zip (findex df) c)) idx = map Some vs"
  using assms by (auto simp: loc_rows_def split: option.splits dest: those_Some)

lemma congested_count:
  "map g idx = map Some flow \<Longrightarrow> map h idx = map Some flow_max \<Longrightarrow>
   congested flow flow_max =
     length (filter (\<lambda>t. case (g t, h t) of (Some f, Some m) \<Rightarrow> f = m \<and> 0 < m | _ \<Rightarrow> False) idx)"
proof (induction idx arbitrary: flow flow_max)
  case Nil
  then show ?case by (simp add: congested_def)
next
  case (Cons t idx)
  from Cons.prems obtain f fs m ms where
    e: "flow = f # fs" "flow_max = m # ms" "g t = Some f" "h t = Some m"
       "map g idx = map Some fs" "map h idx = map Some ms"
    by (cases flow; cases flow_max) auto
  have "congested fs ms =
     length (filter (\<lambda>t. case (g t, h t) of (Some f, Some m) \<Rightarrow> f = m \<and> 0 < m | _ \<Rightarrow> False) idx)"
    using e(5,6) by (rule Cons.IH)
  then show ?case
    using e(1-4) by (simp add: congested_def)
qed

lemma congestion_example_run:
  "get_congestion [''A -> B'', ''RoW -> A''] congestion_flow_maximum congestion_demand
     congestion_flows [1, 2, 3] = Inr [(''A -> B'', [Some (1 / 3)])]"
  by (simp add: get_congestion_def Let_def in_str_def bind_err_def labels_def
        congestion_flows_def congestion_flow_maximum_def congestion_demand_def
        get_congestion_step_def loc_rows_def loc_set0_def congested_def loc_size_def cell_div_def
        upt_rec)

text \<open>
  Claim C6 states that the count of congested time steps of the window is divided by the
  number of time steps of the whole demand horizon. On a horizon of four time steps and
  the window of its last three, of which one is congested (at the second the flow is
  below the limit, at the third flow and limit are both 0), the code returns 1 / 3 and
  not 1 / 4.
\<close>

theorem congestion_window_denominator:
  "map_sum id (\<lambda>cgst. map_of cgst ''A -> B'')
     (get_congestion [''A -> B'', ''RoW -> A''] congestion_flow_maximum congestion_demand
        congestion_flows [1, 2, 3])
     = Inr (Some [Some (1 / 3)]) \<and>
   map_sum id (\<lambda>cgst. map_of cgst ''A -> B'')
     (get_congestion [''A -> B'', ''RoW -> A''] congestion_flow_maximum congestion_demand
        congestion_flows [1, 2, 3])
     \<noteq> Inr (Some [Some (real (length (filter (\<lambda>x. fst x = snd x \<and> 0 < snd x)
                                           (zip [10, 5, 0 :: real] [10, 10, 0 :: real])))
                           / real (length (findex congestion_demand)))])"
proof -
  have "length (findex congestion_demand) = 4" by (simp add: congestion_demand_def)
  then show ?thesis
    unfolding congestion_example_run by simp
qed

text \<open>
  Claim C6, amended. \<open>Demand.loc[idx, :]\<close> holds the rows of the window only, so the
  divisor is the number of time steps of the window: for every line of the flow table
  whose label neither starts nor ends with \<open>RoW\<close>, and a window that is not empty, the
  fraction \<open>get_congestion\<close> returns is the number of time steps of the window where the
  flow equals the capacity limit and the limit is positive, divided by the number of
  time steps of the window. The flow and the limit of the line are read, at every time
  step of the window, from the columns of the line in the two tables.
\<close>

theorem congestion_fraction:
  assumes "get_congestion sets_l flow_maximum demand flows idx = Inr cgst"
    and "l \<in> set (labels flows)"
    and "take 3 l \<noteq> ''RoW''" and "drop (length l - 3) l \<noteq> ''RoW''"
    and "idx \<noteq> []"
  shows "\<exists>flow_col max_col.
           map_of (fcols flows) l = Some flow_col \<and>
           map_of (fcols flow_maximum) l = Some max_col \<and>
           (\<forall>t\<in>set idx. map_of (zip (findex flows) flow_col) t \<noteq> None \<and>
                        map_of (zip (findex flow_maximum) max_col) t \<noteq> None) \<and>
           map_of cgst l =
             Some [Some (real (length (filter
                     (\<lambda>t. case (map_of (zip (findex flows) flow_col) t,
                                 map_of (zip (findex flow_maximum) max_col) t) of
                            (Some f, Some m) \<Rightarrow> f = m \<and> 0 < m
                          | _ \<Rightarrow> False) idx))
                   / real (length idx))]"
proof -
  from assms(1) obtain cg1 where
    f: "fold_err (get_congestion_step flow_maximum flows idx) (labels flows)
          (map (\<lambda>k. (k, [])) (filter (\<lambda>x. \<not> in_str ''RoW'' x) sets_l)) = Inr cg1"
    and s: "loc_size demand idx = Inr (length idx)"
    and c: "cgst = map (\<lambda>c. (fst c, map (cell_div (length idx)) (snd c)))
              (map (\<lambda>c. (fst c, map (\<lambda>v. case v of None \<Rightarrow> Some 0 | Some x \<Rightarrow> Some x) (snd c))) cg1)"
    by (auto simp: get_congestion_def Let_def bind_err_def loc_size_def split: sum.splits if_splits)
  from congestion_fold_sets [OF f assms(2,3,4)] obtain flow flow_max where
    l: "loc_rows flows idx l = Inr flow" "loc_rows flow_maximum idx l = Inr flow_max"
    and m: "map_of cg1 l = Some [Some (congestion_value flow_maximum flows idx l)]"
    by blast
  from loc_rows_Inr [OF l(1)] obtain flow_col where
    fc: "map_of (fcols flows) l = Some flow_col"
    and fv: "map (map_of (zip (findex flows) flow_col)) idx = map Some flow"
    by blast
  from loc_rows_Inr [OF l(2)] obtain max_col where
    mc: "map_of (fcols flow_maximum) l = Some max_col"
    and mv: "map (map_of (zip (findex flow_maximum) max_col)) idx = map Some flow_max"
    by blast
  have def: "\<forall>t\<in>set idx. map_of (zip (findex flows) flow_col) t \<noteq> None \<and>
                        map_of (zip (findex flow_maximum) max_col) t \<noteq> None"
  proof
    fix t assume t: "t \<in> set idx"
    then have "map_of (zip (findex flows) flow_col) t \<in> set (map Some flow)"
      unfolding fv [symmetric] by simp
    moreover from t have "map_of (zip (findex flow_maximum) max_col) t \<in> set (map Some flow_max)"
      unfolding mv [symmetric] by simp
    ultimately show "map_of (zip (findex flows) flow_col) t \<noteq> None \<and>
                     map_of (zip (findex flow_maximum) max_col) t \<noteq> None"
      by auto
  qed
  have v: "congestion_value flow_maximum flows idx l = real (congested flow flow_max)"
    using l by (simp add: congestion_value_def)
  let ?fill = "map (\<lambda>v. case v of None \<Rightarrow> Some 0 | Some x \<Rightarrow> Some (x :: real))"
  have m2: "map_of (map (\<lambda>c. (fst c, ?fill (snd c))) cg1) l
              = Some [Some (real (congested flow flow_max))]"
    unfolding map_of_map_snd [of ?fill] by (simp add: m v)
  have "map_of cgst l = map_option (map (cell_div (length idx)))
          (map_of (map (\<lambda>c. (fst c, ?fill (snd c))) cg1) l)"
    unfolding c by (rule map_of_map_snd)
  then have "map_of cgst l = Some [Some (real (congested flow flow_max) / real (length idx))]"
    using assms(5) by (simp add: m2 cell_div_def)
  then have "map_of cgst l =
             Some [Some (real (length (filter
                     (\<lambda>t. case (map_of (zip (findex flows) flow_col) t,
                                 map_of (zip (findex flow_maximum) max_col) t) of
                            (Some f, Some m) \<Rightarrow> f = m \<and> 0 < m
                          | _ \<Rightarrow> False) idx))
                   / real (length idx))]"
    by (simp only: congested_count [OF fv mv])
  with fc mc def show ?thesis by blast
qed

theorem congestion_fraction_witness:
  "get_congestion [''A -> B'', ''RoW -> A''] congestion_flow_maximum congestion_demand
     congestion_flows [1, 2, 3] = Inr [(''A -> B'', [Some (1 / 3)])] \<and>
   ''A -> B'' \<in> set (labels congestion_flows) \<and>
   take 3 ''A -> B'' \<noteq> ''RoW'' \<and> drop (length ''A -> B'' - 3) ''A -> B'' \<noteq> ''RoW'' \<and>
   [1, 2, 3 :: nat] \<noteq> [] \<and>
   map_of (fcols congestion_flows) ''A -> B'' = Some [10, 10, 5, 0] \<and>
   map_of (fcols congestion_flow_maximum) ''A -> B'' = Some [10, 10, 10, 0] \<and>
   filter (\<lambda>t. case (map_of (zip (findex congestion_flows) [10, 10, 5, 0 :: real]) t,
                      map_of (zip (findex congestion_flow_maximum) [10, 10, 10, 0 :: real]) t) of
                 (Some f, Some m) \<Rightarrow> f = m \<and> 0 < m
               | _ \<Rightarrow> False) [1, 2, 3] = [1] \<and>
   map_of [(''A -> B'', [Some (1 / 3 :: real)])] ''A -> B'' =
     Some [Some (real (length (filter
             (\<lambda>t. case (map_of (zip (findex congestion_flows) [10, 10, 5, 0 :: real]) t,
                         map_of (zip (findex congestion_flow_maximum) [10, 10, 10, 0 :: real]) t) of
                    (Some f, Some m) \<Rightarrow> f = m \<and> 0 < m
                  | _ \<Rightarrow> False) [1, 2, 3]))
           / real (length [1, 2, 3 :: nat]))]"
proof -
  have h2: "''A -> B'' \<in> set (labels congestion_flows)"
    by (simp add: labels_def congestion_flows_def)
  have h3: "take 3 ''A -> B'' \<noteq> ''RoW''" by simp
  have h4: "drop (length ''A -> B'' - 3) ''A -> B'' \<noteq> ''RoW''" by simp
  have h5: "[1, 2, 3 :: nat] \<noteq> []" by simp
  have c1: "map_of (fcols congestion_flows) ''A -> B'' = Some [10, 10, 5, 0]"
    by (simp add: congestion_flows_def)
  have c2: "map_of (fcols congestion_flow_maximum) ''A -> B'' = Some [10, 10, 10, 0]"
    by (simp add: congestion_flow_maximum_def)
  have c3: "filter (\<lambda>t. case (map_of (zip (findex congestion_flows) [10, 10, 5, 0 :: real]) t,
                      map_of (zip (findex congestion_flow_maximum) [10, 10, 10, 0 :: real]) t) of
                 (Some f, Some m) \<Rightarrow> f = m \<and> 0 < m
               | _ \<Rightarrow> False) [1, 2, 3] = [1]"
    by (simp add: congestion_flows_def congestion_flow_maximum_def)
  from congestion_fraction [OF congestion_example_run h2 h3 h4 h5] obtain flow_col max_col where
    o: "map_of (fcols congestion_flows) ''A -> B'' = Some flow_col"
       "map_of (fcols congestion_flow_maximum) ''A -> B'' = Some max_col"
       "map_of [(''A -> B'', [Some (1 / 3 :: real)])] ''A -> B'' =
         Some [Some (real (length (filter
             (\<lambda>t. case (map_of (zip (findex congestion_flows) flow_col) t,
                         map_of (zip (findex congestion_flow_maximum) max_col) t) of
                    (Some f, Some m) \<Rightarrow> f = m \<and> 0 < m
                  | _ \<Rightarrow> False) [1, 2, 3]))
           / real (length [1, 2, 3 :: nat]))]"
    by blast
  from o(1) c1 have e1: "flow_col = [10, 10, 5, 0]" by simp
  from o(2) c2 have e2: "max_col = [10, 10, 10, 0]" by simp
  from o(3) [unfolded e1 e2] congestion_example_run h2 h3 h4 h5 c1 c2 c3
  show ?thesis by blast
qed

section \<open>Storage levels per technology\<close>

lemma distinct_set_col: "distinct (map fst cs) \<Longrightarrow> distinct (map fst (set_col cs k v))"
proof (induction cs k v rule: set_col.induct)
  case (1 k v)
  then show ?case by simp
next
  case (2 l c r k v)
  have "fst ` set (set_col r k v) \<subseteq> insert k (fst ` set r)"
    by (induction r k v rule: set_col.induct) auto
  with 2 show ?case by auto
qed

lemma levels_assign_distinct:
  "levels_assign idx fbt lv t = Inr lv' \<Longrightarrow> distinct (map fst lv) \<Longrightarrow> distinct (map fst lv')"
  by (auto simp: levels_assign_def Let_def bind_err_def distinct_set_col split: sum.splits)

lemma fold_levels_assign_distinct:
  "fold_err (levels_assign idx fbt) ts lv = Inr lv' \<Longrightarrow> distinct (map fst lv) \<Longrightarrow>
   distinct (map fst lv')"
proof (induction ts arbitrary: lv)
  case Nil
  then show ?case by simp
next
  case (Cons t ts)
  from Cons.prems(1) obtain lv1 where
    s: "levels_assign idx fbt lv t = Inr lv1"
    and r: "fold_err (levels_assign idx fbt) ts lv1 = Inr lv'"
    by (auto simp: bind_err_def split: sum.splits)
  show ?case
    using Cons.IH [OF r levels_assign_distinct [OF s Cons.prems(2)]] .
qed

lemma distinct_filter_fst: "distinct (map fst cs) \<Longrightarrow> distinct (map fst (filter P cs))"
  by (simp add: distinct_map_filter)

lemma fold_drop_zero:
  "fold_err drop_zero_step ks lv = Inr lv' \<Longrightarrow> distinct (map fst lv) \<Longrightarrow>
   lv' = filter (\<lambda>x. \<not> (fst x \<in> set ks \<and> zero_level (snd x))) lv"
proof (induction ks arbitrary: lv)
  case Nil
  then show ?case by simp
next
  case (Cons k ks)
  from Cons.prems(1) obtain lv1 where
    s: "drop_zero_step lv k = Inr lv1"
    and r: "fold_err drop_zero_step ks lv1 = Inr lv'"
    by (auto simp: bind_err_def split: sum.splits)
  from s obtain c where m: "map_of lv k = Some c"
    and lv1: "lv1 = (if zero_level c then filter (\<lambda>x. fst x \<noteq> k) lv else lv)"
    by (auto simp: drop_zero_step_def zero_level_def split: option.splits if_splits)
  have u: "snd x = c" if "x \<in> set lv" "fst x = k" for x
  proof -
    from that have "(k, snd x) \<in> set lv" by (metis prod.collapse)
    with Cons.prems(2) m show ?thesis by simp
  qed
  have d1: "distinct (map fst lv1)"
    using Cons.prems(2) by (simp add: lv1 distinct_filter_fst)
  have "lv' = filter (\<lambda>x. \<not> (fst x \<in> set ks \<and> zero_level (snd x))) lv1"
    using Cons.IH [OF r d1] .
  also have "\<dots> = filter (\<lambda>x. \<not> (fst x \<in> set (k # ks) \<and> zero_level (snd x))) lv"
    using u by (auto simp: lv1 intro!: filter_cong)
  finally show ?case .
qed

lemma levels_example_run:
  "plot_zone_level [0, 1] [''HDAM'', ''COMC'', ''BATS''] \<lparr>findex = [0, 1], fcols = []\<rparr>
     levels_filter_example = Inr (Level_frame [(''HDAM'', [Some 4, Some 6])])"
  by (simp add: plot_zone_level_def Let_def bind_err_def levels_assign_def
        levels_filter_example_def frame_sum_axis1_def sum_axis1_def zeros_def vadd_def
        reindex_def index_def dropna_axis1_def drop_zero_step_def nmax_def nmin_def dropna_def
        series_max_def series_min_def)

text \<open>
  Claim C8. The storage levels \<open>plot_zone\<close> hands on are the table \<open>levels\<close> with one
  column per technology, and no column of it has a maximum and a minimum that are both
  exactly 0: every such column has been deleted. The technologies of
  \<open>inputs['sets']['t']\<close> are pairwise different.
\<close>

theorem zero_levels_dropped:
  assumes "distinct sets_t"
    and "plot_zone_level idx sets_t level filter_by_tech = Inr result"
  shows "\<exists>levels. result = Level_frame levels \<and>
           (\<forall>c\<in>set levels. \<not> (nmax (snd c) = Some 0 \<and> nmin (snd c) = Some 0))"
proof -
  let ?lv0 = "map (\<lambda>t. (t, replicate (length idx) None)) sets_t"
  from assms(2) obtain lv1 lv3 where
    a: "fold_err (levels_assign idx filter_by_tech)
          [''HDAM'', ''HPHS'', ''BEVS'', ''BATS'', ''SCSP'', ''P2GS''] ?lv0 = Inr lv1"
    and b: "fold_err drop_zero_step (map fst (dropna_axis1 lv1)) (dropna_axis1 lv1) = Inr lv3"
    and c: "result = Level_frame lv3"
    unfolding plot_zone_level_def Let_def bind_err_def
    by (auto split: sum.splits)
  have "distinct (map fst ?lv0)" using assms(1) by (simp add: comp_def)
  then have "distinct (map fst lv1)" by (rule fold_levels_assign_distinct [OF a])
  then have d: "distinct (map fst (dropna_axis1 lv1))"
    by (simp add: dropna_axis1_def distinct_filter_fst)
  have "lv3 = filter (\<lambda>x. \<not> (fst x \<in> set (map fst (dropna_axis1 lv1)) \<and> zero_level (snd x)))
                (dropna_axis1 lv1)"
    using fold_drop_zero [OF b d] .
  then have "\<forall>c\<in>set lv3. \<not> zero_level (snd c)" by auto
  with c show ?thesis by (simp add: zero_level_def)
qed

theorem zero_levels_dropped_witness:
  "distinct [''HDAM'', ''COMC'', ''BATS''] \<and>
   plot_zone_level [0, 1] [''HDAM'', ''COMC'', ''BATS''] \<lparr>findex = [0, 1], fcols = []\<rparr>
     levels_filter_example = Inr (Level_frame [(''HDAM'', [Some 4, Some 6])]) \<and>
   (\<exists>levels. Level_frame [(''HDAM'', [Some 4, Some 6])] = Level_frame levels \<and>
      (\<forall>c\<in>set levels. \<not> (nmax (snd c) = Some 0 \<and> nmin (snd c) = Some 0)))"
proof -
  have h1: "distinct [''HDAM'', ''COMC'', ''BATS'']" by simp
  from zero_levels_dropped [OF h1 levels_example_run] h1 levels_example_run
  show ?thesis by blast
qed

end
